theory Spec2Isabelle
  imports Complex_Main "HOL-Library.Word" "HOL-Library.AList" "HOL-Library.List_Lexorder"
    "HOL-Library.Signed_Division"
begin

unbundle bit_operations_syntax

section \<open>GoNetWatch: the model\<close>

text \<open>
  A shallow embedding of the Go packages \<^verbatim>\<open>analysis\<close> (TrafficStats, AnomalyDetector),
  \<^verbatim>\<open>spoofer\<close> (GetMAC, Engine) and \<^verbatim>\<open>discovery\<close> (Scan).

  Conventions.
  \<^item> Go's \<^verbatim>\<open>int\<close> (on a 64-bit platform) and \<^verbatim>\<open>int64\<close> are 64-bit words: \<open>+\<close> wraps,
    \<open>sint\<close> reads the signed value, comparisons of the source are comparisons of \<open>sint\<close>.
  \<^item> A \<^verbatim>\<open>time.Time\<close> is an integer number of nanoseconds after Go's zero Time; every call
    of \<^verbatim>\<open>time.Now()\<close> is an argument of the function that makes it. A \<^verbatim>\<open>time.Duration\<close>
    is an integer number of nanoseconds; \<^verbatim>\<open>Time.Sub\<close> saturates as in Go.
  \<^item> The mutexes are left out: every method body runs under its lock, so each call is
    one atomic step on the state.
\<close>

subsection \<open>Machine integers, time, formatting\<close>

type_synonym go_int = "64 word"
type_synonym int64 = "64 word"
type_synonym Time = int
type_synonym Duration = int

definition Nanosecond :: Duration where "Nanosecond = 1"
definition Microsecond :: Duration where "Microsecond = 1000"
definition Millisecond :: Duration where "Millisecond = 1000000"
definition Second :: Duration where "Second = 1000000000"
definition Minute :: Duration where "Minute = 60 * Second"

definition maxDuration :: Duration where "maxDuration = 2 ^ 63 - 1"
definition minDuration :: Duration where "minDuration = - (2 ^ 63)"

text \<open>\<^verbatim>\<open>t.Sub(u)\<close>: the difference, clamped to the range of a Duration.\<close>

definition Sub :: "Time \<Rightarrow> Time \<Rightarrow> Duration" where
  "Sub t u = max minDuration (min maxDuration (t - u))"

text \<open>The zero value of \<^verbatim>\<open>time.Time\<close>, which a struct field holds until it is assigned.\<close>

definition zeroTime :: Time where "zeroTime = 0"

text \<open>The verb \<^verbatim>\<open>%d\<close> of \<^verbatim>\<open>fmt.Sprintf\<close>: decimal digits, with a minus sign.\<close>

function nat_digits :: "nat \<Rightarrow> string" where
  "nat_digits n =
     (if n < 10 then [char_of (48 + n)]
      else nat_digits (n div 10) @ [char_of (48 + n mod 10)])"
  by pat_completeness auto
termination
  by (relation "measure id") auto

declare nat_digits.simps [simp del]

definition itoa :: "int \<Rightarrow> string" where
  "itoa i = (if i < 0 then CHR ''-'' # nat_digits (nat (- i)) else nat_digits (nat i))"

subsection \<open>models.PacketData\<close>

record PacketData =
  Timestamp :: Time
  SrcIP :: string
  DstIP :: string
  SrcPort :: go_int
  DstPort :: go_int
  Protocol :: string
  Length :: go_int
  Hostname :: string
  EthDst :: string

subsection \<open>analysis.AnomalyDetector\<close>

datatype AnomalyType = AnomalyBroadcastStorm | AnomalyUnsecure | AnomalyDoS

record Config =
  BroadcastThreshold :: go_int
  DoSThreshold :: go_int
  UnsecureCooldown :: Duration
  CleanupInterval :: Duration
  DataRetention :: Duration

definition DefaultConfig :: Config where
  "DefaultConfig =
     \<lparr>BroadcastThreshold = 50, DoSThreshold = 500, UnsecureCooldown = 10 * Second,
      CleanupInterval = 1 * Minute, DataRetention = 5 * Minute\<rparr>"

record Alert =
  Type :: AnomalyType
  Source :: string
  Message :: string
  alert_Timestamp :: Time

text \<open>
  The detector's fields. The three Go maps are partial functions (no result depends on
  their iteration order). \<open>maxAlerts\<close> is a natural number: the field is private and the
  constructor is its only writer. \<open>fired\<close> is a history variable that the Go struct does
  not have: \<open>addAlert\<close> appends every alert it is called with, and nothing reads it. It
  states how many alerts were raised, which the bounded \<open>alerts\<close> forgets.
\<close>

record AnomalyDetector =
  config :: Config
  broadcastCount :: go_int
  broadcastWindow :: Time
  unsecureAlerts :: "string \<rightharpoonup> Time"
  ipPacketCount :: "string \<rightharpoonup> go_int"
  ipWindow :: "string \<rightharpoonup> Time"
  alerts :: "Alert list"
  maxAlerts :: nat
  lastCleanup :: Time
  fired :: "Alert list"

text \<open>\<^verbatim>\<open>NewAnomalyDetector(cfg)\<close>; \<open>now\<close> is its reading of the clock.\<close>

definition NewAnomalyDetector :: "Config \<Rightarrow> Time \<Rightarrow> AnomalyDetector" where
  "NewAnomalyDetector cfg now =
     \<lparr>config = cfg, broadcastCount = 0, broadcastWindow = zeroTime,
      unsecureAlerts = Map.empty, ipPacketCount = Map.empty, ipWindow = Map.empty,
      alerts = [], maxAlerts = 20, lastCleanup = now, fired = []\<rparr>"

text \<open>Reading a Go map at a key it may not hold gives the zero value.\<close>

definition count_at :: "(string \<rightharpoonup> go_int) \<Rightarrow> string \<Rightarrow> go_int" where
  "count_at m k = (case m k of None \<Rightarrow> 0 | Some c \<Rightarrow> c)"

definition time_at :: "(string \<rightharpoonup> Time) \<Rightarrow> string \<Rightarrow> Time" where
  "time_at m k = (case m k of None \<Rightarrow> zeroTime | Some t \<Rightarrow> t)"

definition addAlert :: "Alert \<Rightarrow> AnomalyDetector \<Rightarrow> AnomalyDetector" where
  "addAlert alert ad =
     (let appended = alerts ad @ [alert]
      in ad\<lparr>alerts :=
               (if length appended > maxAlerts ad
                then drop (length appended - maxAlerts ad) appended
                else appended),
             fired := fired ad @ [alert]\<rparr>)"

definition cleanup :: "Time \<Rightarrow> AnomalyDetector \<Rightarrow> AnomalyDetector" where
  "cleanup now ad =
     ad\<lparr>unsecureAlerts :=
          (\<lambda>key. case unsecureAlerts ad key of
                   None \<Rightarrow> None
                 | Some lastAlert \<Rightarrow>
                     if Sub now lastAlert > DataRetention (config ad) then None
                     else Some lastAlert),
        ipWindow :=
          (\<lambda>ip. case ipWindow ad ip of
                  None \<Rightarrow> None
                | Some windowStart \<Rightarrow>
                    if Sub now windowStart > DataRetention (config ad) then None
                    else Some windowStart),
        ipPacketCount :=
          (\<lambda>ip. case ipWindow ad ip of
                  None \<Rightarrow> ipPacketCount ad ip
                | Some windowStart \<Rightarrow>
                    if Sub now windowStart > DataRetention (config ad) then None
                    else ipPacketCount ad ip)\<rparr>"

definition detectBroadcastStorm :: "PacketData \<Rightarrow> Time \<Rightarrow> AnomalyDetector \<Rightarrow> AnomalyDetector" where
  "detectBroadcastStorm pkt now ad =
     (if EthDst pkt = ''ff:ff:ff:ff:ff:ff'' then
        let ad1 = (if Sub now (broadcastWindow ad) > Second
                   then ad\<lparr>broadcastCount := 0, broadcastWindow := now\<rparr> else ad);
            ad2 = ad1\<lparr>broadcastCount := broadcastCount ad1 + 1\<rparr>
        in if sint (broadcastCount ad2) > sint (BroadcastThreshold (config ad2)) then
             (addAlert
                \<lparr>Type = AnomalyBroadcastStorm, Source = ''Network'',
                 Message = ''Broadcast storm detected: '' @ itoa (sint (broadcastCount ad2))
                             @ '' broadcasts in 1 second'',
                 alert_Timestamp = now\<rparr> ad2)
             \<lparr>broadcastCount := 0, broadcastWindow := now\<rparr>
           else ad2
      else ad)"

definition unsecurePorts :: "go_int \<Rightarrow> string option" where
  "unsecurePorts p =
     (if p = 80 then Some ''HTTP'' else if p = 21 then Some ''FTP''
      else if p = 23 then Some ''Telnet'' else None)"

text \<open>The throttle key \<^verbatim>\<open>fmt.Sprintf("%s:%d", pkt.SrcIP, pkt.DstPort)\<close>.\<close>

definition unsecureKey :: "PacketData \<Rightarrow> string" where
  "unsecureKey pkt = SrcIP pkt @ '':'' @ itoa (sint (DstPort pkt))"

definition detectUnsecureProtocol :: "PacketData \<Rightarrow> Time \<Rightarrow> AnomalyDetector \<Rightarrow> AnomalyDetector" where
  "detectUnsecureProtocol pkt now ad =
     (case unsecurePorts (DstPort pkt) of
        None \<Rightarrow> ad
      | Some protocolName \<Rightarrow>
          let key = unsecureKey pkt in
          if (case unsecureAlerts ad key of
                None \<Rightarrow> True
              | Some lastAlert \<Rightarrow> Sub now lastAlert > UnsecureCooldown (config ad))
          then (addAlert
                  \<lparr>Type = AnomalyUnsecure, Source = SrcIP pkt,
                   Message = ''Plaintext '' @ protocolName @ '' traffic on port ''
                               @ itoa (sint (DstPort pkt)) @ '' from '' @ SrcIP pkt,
                   alert_Timestamp = now\<rparr> ad)
               \<lparr>unsecureAlerts := (unsecureAlerts ad)(key \<mapsto> now)\<rparr>
          else ad)"

definition detectDoS :: "PacketData \<Rightarrow> Time \<Rightarrow> AnomalyDetector \<Rightarrow> AnomalyDetector" where
  "detectDoS pkt now ad =
     (if SrcIP pkt = [] then ad
      else
        let ip = SrcIP pkt;
            ad1 = (if ipWindow ad ip = None
                   then ad\<lparr>ipWindow := (ipWindow ad)(ip \<mapsto> now),
                           ipPacketCount := (ipPacketCount ad)(ip \<mapsto> 0)\<rparr>
                   else ad);
            ad2 = (if Sub now (time_at (ipWindow ad1) ip) > Second
                   then ad1\<lparr>ipPacketCount := (ipPacketCount ad1)(ip \<mapsto> 0),
                            ipWindow := (ipWindow ad1)(ip \<mapsto> now)\<rparr>
                   else ad1);
            ad3 = ad2\<lparr>ipPacketCount :=
                        (ipPacketCount ad2)(ip \<mapsto> count_at (ipPacketCount ad2) ip + 1)\<rparr>
        in if sint (count_at (ipPacketCount ad3) ip) > sint (DoSThreshold (config ad3)) then
             (addAlert
                \<lparr>Type = AnomalyDoS, Source = ip,
                 Message = ''High packet rate from '' @ ip @ '': ''
                             @ itoa (sint (count_at (ipPacketCount ad3) ip)) @ '' pps'',
                 alert_Timestamp = now\<rparr> ad3)
             \<lparr>ipPacketCount := (ipPacketCount ad3)(ip \<mapsto> 0),
              ipWindow := (ipWindow ad3)(ip \<mapsto> now)\<rparr>
           else ad3)"

text \<open>\<^verbatim>\<open>(*AnomalyDetector).ProcessPacket\<close>; \<open>now\<close> is its reading of the clock.\<close>

definition ad_ProcessPacket :: "PacketData \<Rightarrow> Time \<Rightarrow> AnomalyDetector \<Rightarrow> AnomalyDetector" where
  "ad_ProcessPacket pkt now ad =
     (let ad1 = (if Sub now (lastCleanup ad) > CleanupInterval (config ad)
                 then (cleanup now ad)\<lparr>lastCleanup := now\<rparr> else ad)
      in detectDoS pkt now (detectUnsecureProtocol pkt now (detectBroadcastStorm pkt now ad1)))"

text \<open>A run of the detector: the calls of ProcessPacket in order, each with its clock reading.\<close>

fun ad_run :: "AnomalyDetector \<Rightarrow> (PacketData \<times> Time) list \<Rightarrow> AnomalyDetector" where
  "ad_run ad [] = ad"
| "ad_run ad ((pkt, now) # evs) = ad_run (ad_ProcessPacket pkt now ad) evs"

subsection \<open>analysis.TrafficStats\<close>

record IPStat =
  IP :: string
  Bytes :: go_int

record DomainEntry =
  entry_Hostname :: string
  entry_Timestamp :: Time
  entry_Source :: string

text \<open>
  The aggregator's fields. Its two Go maps are association lists with distinct keys, since
  \<open>GetTopTalkers\<close> and \<open>GetProtocolStats\<close> range over them: a read of a missing key is
  the zero value, a write replaces the entry of a present key and adds one otherwise.
  Go leaves the order of a range over a map open; the order of the list is one such order.
  \<open>maxDomainLog\<close> is a natural number, as \<open>maxAlerts\<close> is.
\<close>

record TrafficStats =
  totalBytes :: int64
  windowBytes :: int64
  windowPackets :: int64
  lastTick :: Time
  ipBytes :: "(string \<times> go_int) list"
  protocolCounts :: "(string \<times> int64) list"
  domainLog :: "DomainEntry list"
  maxDomainLog :: nat
  anomalyDetector :: AnomalyDetector

definition map_get :: "(string \<times> 64 word) list \<Rightarrow> string \<Rightarrow> 64 word" where
  "map_get m k = (case map_of m k of None \<Rightarrow> 0 | Some v \<Rightarrow> v)"

text \<open>
  \<^verbatim>\<open>NewTrafficStats()\<close>; \<open>now\<close> is the constructor's reading of the clock and \<open>now_ad\<close> the
  reading of \<^verbatim>\<open>NewAnomalyDetector\<close>, which it calls.
\<close>

definition NewTrafficStats :: "Time \<Rightarrow> Time \<Rightarrow> TrafficStats" where
  "NewTrafficStats now now_ad =
     \<lparr>totalBytes = 0, windowBytes = 0, windowPackets = 0, lastTick = now,
      ipBytes = [], protocolCounts = [], domainLog = [], maxDomainLog = 50,
      anomalyDetector = NewAnomalyDetector DefaultConfig now_ad\<rparr>"

text \<open>The classification of a domain entry (lines 82 to 87 of ProcessPacket).\<close>

definition domainSource :: "PacketData \<Rightarrow> string" where
  "domainSource pkt =
     (if DstPort pkt = 443 \<or> DstPort pkt = 853 then ''SNI''
      else if DstPort pkt = 53 \<or> Protocol pkt = ''UDP'' then ''DNS''
      else ''HTTP'')"

text \<open>
  \<^verbatim>\<open>(*TrafficStats).ProcessPacket\<close>. \<open>now_entry\<close> is the clock reading that stamps a domain
  entry, \<open>now_ad\<close> the reading of the detector's ProcessPacket, called last.
\<close>

definition ProcessPacket :: "PacketData \<Rightarrow> Time \<Rightarrow> Time \<Rightarrow> TrafficStats \<Rightarrow> TrafficStats" where
  "ProcessPacket pkt now_entry now_ad s =
     (let s1 = s\<lparr>totalBytes := totalBytes s + Length pkt,
                  windowBytes := windowBytes s + Length pkt,
                  windowPackets := windowPackets s + 1\<rparr>;
          s2 = (if SrcIP pkt \<noteq> []
                then s1\<lparr>ipBytes :=
                          AList.update (SrcIP pkt) (map_get (ipBytes s1) (SrcIP pkt) + Length pkt)
                            (ipBytes s1)\<rparr>
                else s1);
          proto = (if Protocol pkt = [] then ''Unknown'' else Protocol pkt);
          s3 = s2\<lparr>protocolCounts :=
                     AList.update proto (map_get (protocolCounts s2) proto + 1)
                       (protocolCounts s2)\<rparr>;
          s4 = (if Hostname pkt \<noteq> [] then
                  let entry = \<lparr>entry_Hostname = Hostname pkt, entry_Timestamp = now_entry,
                               entry_Source = domainSource pkt\<rparr>;
                      appended = domainLog s3 @ [entry]
                  in s3\<lparr>domainLog :=
                          (if length appended > maxDomainLog s3
                           then drop (length appended - maxDomainLog s3) appended
                           else appended)\<rparr>
                else s3)
      in s4\<lparr>anomalyDetector := ad_ProcessPacket pkt now_ad (anomalyDetector s4)\<rparr>)"

text \<open>
  \<^verbatim>\<open>(*TrafficStats).GetRates\<close>; \<open>now\<close> is its reading of the clock. The two rates are
  \<^verbatim>\<open>float64\<close> in Go and exact quotients here: rounding is not modelled.
  \<^verbatim>\<open>Duration.Seconds()\<close> adds the whole seconds and the remaining nanoseconds over \<open>1e9\<close>;
  Go's integer division and remainder truncate towards zero (\<open>sdiv\<close>, \<open>smod\<close>).
\<close>

definition Seconds :: "Duration \<Rightarrow> real" where
  "Seconds d = real_of_int (d sdiv Second) + real_of_int (d smod Second) / 1000000000"

definition GetRates :: "Time \<Rightarrow> TrafficStats \<Rightarrow> (real \<times> real) \<times> TrafficStats" where
  "GetRates now s =
     (let duration = Seconds (Sub now (lastTick s)) in
      if duration = 0 then ((0, 0), s)
      else
        let bps = (real_of_int (sint (windowBytes s)) * 8) / duration;
            pps = real_of_int (sint (windowPackets s)) / duration
        in ((bps, pps), s\<lparr>windowBytes := 0, windowPackets := 0, lastTick := now\<rparr>))"

text \<open>The run-time panics that the modelled functions can raise.\<close>

datatype panic = SliceBoundsOutOfRange | CloseOfClosedChannel | NilPointerDereference

text \<open>
  \<^verbatim>\<open>(*TrafficStats).GetTopTalkers\<close>. The slice expression \<^verbatim>\<open>stats[:limit]\<close> panics when
  \<open>limit\<close> is negative. \<^verbatim>\<open>sort.Slice\<close> is not stable and leaves the order of ties open;
  the stable sort here gives one of its results.
\<close>

definition GetTopTalkers :: "go_int \<Rightarrow> TrafficStats \<Rightarrow> panic + IPStat list" where
  "GetTopTalkers limit s =
     (let stats = map (\<lambda>(ip, bytes). \<lparr>IP = ip, Bytes = bytes\<rparr>) (ipBytes s);
          sorted_stats = sort_key (\<lambda>st. - sint (Bytes st)) stats
      in if int (length sorted_stats) > sint limit then
           (if sint limit < 0 then Inl SliceBoundsOutOfRange
            else Inr (take (nat (sint limit)) sorted_stats))
         else Inr sorted_stats)"

text \<open>A run of the aggregator: the calls of ProcessPacket in order, each with its clock readings.\<close>

fun run :: "TrafficStats \<Rightarrow> (PacketData \<times> Time \<times> Time) list \<Rightarrow> TrafficStats" where
  "run s [] = s"
| "run s ((pkt, now_entry, now_ad) # evs) = run (ProcessPacket pkt now_entry now_ad s) evs"

subsection \<open>spoofer.Engine: Stop and cleanup\<close>

text \<open>
  \<^verbatim>\<open>net.HardwareAddr\<close> and \<^verbatim>\<open>net.IP\<close> are byte slices. \<^verbatim>\<open>IP.To4\<close> is Go's: a 4-byte address
  is itself, a 16-byte IPv4-mapped address gives its last four bytes, anything else nil.
\<close>

type_synonym HardwareAddr = "8 word list"
type_synonym IP = "8 word list"

definition To4 :: "IP \<Rightarrow> IP" where
  "To4 ip =
     (if length ip = 4 then ip
      else if length ip = 16 \<and> take 10 ip = replicate 10 0 \<and> ip ! 10 = 255 \<and> ip ! 11 = 255
           then drop 12 ip
      else [])"

text \<open>
  The Ethernet and ARP layers that sendARP and GetMAC fill in; the constant fields
  (link type Ethernet, protocol IPv4, address sizes 6 and 4, EtherType ARP) are left out.
\<close>

datatype ARPOperation = ARPRequest | ARPReply

record ARPFrame =
  eth_SrcMAC :: HardwareAddr
  eth_DstMAC :: HardwareAddr
  Operation :: ARPOperation
  SourceHwAddress :: "8 word list"
  SourceProtAddress :: "8 word list"
  DstHwAddress :: "8 word list"
  DstProtAddress :: "8 word list"

text \<open>
  What Stop does to the outside is a trace of actions, in order. Whether a frame can
  be serialized and written is the environment's: \<open>env n\<close> is the outcome of the
  \<open>n\<close>-th call of sendARP, and \<open>calls\<close> counts the calls made so far.
\<close>

datatype action =
    CloseStopChan
  | Sleep Duration
  | LogLine string
  | WritePacketData ARPFrame
  | CloseHandle

datatype send_outcome = SerializeFails | WriteFails | Sent

record wire =
  trace :: "action list"
  calls :: nat

text \<open>
  The engine. \<open>has_handle\<close> says that the \<^verbatim>\<open>handle\<close> pointer is not nil, \<open>stopChan_closed\<close>
  that \<^verbatim>\<open>stopChan\<close> has been closed (closing it again panics). Start sets \<open>isRunning\<close>
  only after it has stored an open handle.
\<close>

record Engine =
  InterfaceName :: string
  TargetIP :: IP
  GatewayIP :: IP
  TargetMAC :: HardwareAddr
  GatewayMAC :: HardwareAddr
  HostMAC :: HardwareAddr
  has_handle :: bool
  stopChan_closed :: bool
  isRunning :: bool

definition act :: "action \<Rightarrow> wire \<Rightarrow> wire" where
  "act a w = w\<lparr>trace := trace w @ [a]\<rparr>"

text \<open>
  What a send leaves in the trace: the frame reaches \<^verbatim>\<open>WritePacketData\<close> unless it
  could not be serialized.
\<close>

definition written :: "send_outcome \<Rightarrow> ARPFrame \<Rightarrow> action list" where
  "written outcome frame = (if outcome = SerializeFails then [] else [WritePacketData frame])"

definition arp_reply :: "HardwareAddr \<Rightarrow> IP \<Rightarrow> HardwareAddr \<Rightarrow> IP \<Rightarrow> ARPFrame" where
  "arp_reply srcMAC srcIP dstMAC dstIP =
     \<lparr>eth_SrcMAC = srcMAC, eth_DstMAC = dstMAC, Operation = ARPReply,
      SourceHwAddress = srcMAC, SourceProtAddress = To4 srcIP,
      DstHwAddress = dstMAC, DstProtAddress = To4 dstIP\<rparr>"

text \<open>
  \<^verbatim>\<open>(*Engine).sendARP\<close>: a serialization error returns before the handle is used; the
  write goes through the handle, which must not be nil. The Boolean is \<open>err == nil\<close>.
\<close>

definition sendARP ::
  "(nat \<Rightarrow> send_outcome) \<Rightarrow> Engine \<Rightarrow> HardwareAddr \<Rightarrow> IP \<Rightarrow> HardwareAddr \<Rightarrow> IP \<Rightarrow> wire
     \<Rightarrow> panic + (bool \<times> wire)" where
  "sendARP env e srcMAC srcIP dstMAC dstIP w =
     (let frame = arp_reply srcMAC srcIP dstMAC dstIP;
          outcome = env (calls w);
          w1 = w\<lparr>calls := calls w + 1\<rparr>
      in if outcome = SerializeFails then Inr (False, w1)
         else if \<not> has_handle e then Inl NilPointerDereference
         else Inr (outcome = Sent, act (WritePacketData frame) w1))"

text \<open>\<^verbatim>\<open>(*Engine).cleanup\<close>: the loop \<^verbatim>\<open>for i := 0; i < 3; i++\<close>, both results discarded.\<close>

function cleanup_loop :: "(nat \<Rightarrow> send_outcome) \<Rightarrow> Engine \<Rightarrow> nat \<Rightarrow> wire \<Rightarrow> panic + wire" where
  "cleanup_loop env e i w =
     (if i < 3 then
        (case sendARP env e (GatewayMAC e) (GatewayIP e) (TargetMAC e) (TargetIP e) w of
           Inl p \<Rightarrow> Inl p
         | Inr (_, w1) \<Rightarrow>
             (case sendARP env e (TargetMAC e) (TargetIP e) (GatewayMAC e) (GatewayIP e) w1 of
                Inl p \<Rightarrow> Inl p
              | Inr (_, w2) \<Rightarrow> cleanup_loop env e (i + 1) (act (Sleep (100 * Millisecond)) w2)))
      else Inr w)"
  by pat_completeness auto
termination
  by (relation "measure (\<lambda>(env, e, i, w). 3 - i)") auto

declare cleanup_loop.simps [simp del]

definition engine_cleanup :: "(nat \<Rightarrow> send_outcome) \<Rightarrow> Engine \<Rightarrow> wire \<Rightarrow> panic + wire" where
  "engine_cleanup env e w =
     cleanup_loop env e 0 (act (LogLine ''Restoring network (Unspoofing)...'') w)"

text \<open>
  \<^verbatim>\<open>(*Engine).Stop\<close>. The trace is that of the goroutine that calls Stop; what the spoof
  loop still sends from its own goroutine is not part of it.
\<close>

definition Stop :: "(nat \<Rightarrow> send_outcome) \<Rightarrow> Engine \<Rightarrow> wire \<Rightarrow> panic + (Engine \<times> wire)" where
  "Stop env e w =
     (if \<not> isRunning e then Inr (e, w)
      else if stopChan_closed e then Inl CloseOfClosedChannel
      else
        let e1 = e\<lparr>stopChan_closed := True, isRunning := False\<rparr>;
            w1 = act (Sleep (100 * Millisecond)) (act CloseStopChan w)
        in case engine_cleanup env e1 w1 of
             Inl p \<Rightarrow> Inl p
           | Inr w2 \<Rightarrow> if has_handle e1 then Inr (e1, act CloseHandle w2) else Inr (e1, w2))"


subsection \<open>spoofer.GetMAC\<close>

text \<open>\<^verbatim>\<open>net.IP.Equal\<close> is Go's: a 4-byte address equals its 16-byte IPv4-mapped form.\<close>

definition v4InV6Prefix :: "8 word list" where
  "v4InV6Prefix = [0, 0, 0, 0, 0, 0, 0, 0, 0, 0, 255, 255]"

definition IP_Equal :: "IP \<Rightarrow> IP \<Rightarrow> bool" where
  "IP_Equal ip x =
     (if length ip = length x then ip = x
      else if length ip = 4 \<and> length x = 16 then take 12 x = v4InV6Prefix \<and> ip = drop 12 x
      else if length ip = 16 \<and> length x = 4 then take 12 ip = v4InV6Prefix \<and> drop 12 ip = x
      else False)"

text \<open>
  An interface address is a \<^verbatim>\<open>*net.IPNet\<close> (an IP and a mask) or of another type. What
  the libraries return is the environment's: the results of \<^verbatim>\<open>net.ParseIP\<close> and
  \<^verbatim>\<open>net.InterfaceByName\<close>, whether the capture handle opens, whether the frame serializes
  and is written, and, for each turn of the wait loop, the reading of
  \<^verbatim>\<open>time.Since(start)\<close> at its head with what the \<^verbatim>\<open>select\<close> then receives: a packet
  (with its ARP layer, if it has one), the zero value of a closed channel, or the 100ms
  timer.
\<close>

datatype Addr = IPNet IP "8 word list" | OtherAddr

record Interface =
  HardwareAddr :: HardwareAddr
  Addrs :: "Addr list option"

datatype received = GotPacket "ARPFrame option" | ChannelClosed | After100ms

record resolver_env =
  ParseIP :: "string \<Rightarrow> IP option"
  InterfaceByName :: "string \<Rightarrow> Interface option"
  OpenLive_ok :: bool
  SerializeLayers_ok :: bool
  WritePacketData_ok :: bool
  polls :: "(Duration \<times> received) list"

datatype resolve_error =
    InvalidIPAddress | InterfaceNotFound | OpenHandleFailed | InterfaceAddrsFailed
  | NoSourceIP | SerializeFailed | WriteFailed | TimeoutWaitingForReply | Panic panic

text \<open>The first interface address that is an IPNet with an IPv4 address.\<close>

fun first_ipv4 :: "Addr list \<Rightarrow> IP option" where
  "first_ipv4 [] = None"
| "first_ipv4 (IPNet ip netmask # addrs) = (if To4 ip \<noteq> [] then Some ip else first_ipv4 addrs)"
| "first_ipv4 (OtherAddr # addrs) = first_ipv4 addrs"

definition arp_request :: "HardwareAddr \<Rightarrow> IP \<Rightarrow> IP \<Rightarrow> ARPFrame" where
  "arp_request srcMAC srcIP targetIP =
     \<lparr>eth_SrcMAC = srcMAC, eth_DstMAC = [255, 255, 255, 255, 255, 255], Operation = ARPRequest,
      SourceHwAddress = srcMAC, SourceProtAddress = To4 srcIP,
      DstHwAddress = [0, 0, 0, 0, 0, 0], DstProtAddress = To4 targetIP\<rparr>"

definition is_reply_from :: "IP \<Rightarrow> ARPFrame \<Rightarrow> bool" where
  "is_reply_from targetIP arpPacket \<longleftrightarrow>
     Operation arpPacket = ARPReply \<and> IP_Equal (SourceProtAddress arpPacket) targetIP"

text \<open>
  The wait loop. The list holds the turns the environment has played; when it ends
  before the loop has returned, the call is still waiting (\<open>None\<close>). A nil packet from a
  closed channel is dereferenced by \<^verbatim>\<open>packet.Layer\<close>.
\<close>

fun wait_reply :: "IP \<Rightarrow> (Duration \<times> received) list \<Rightarrow> (resolve_error + HardwareAddr) option" where
  "wait_reply targetIP [] = None"
| "wait_reply targetIP ((since_start, r) # rest) =
     (if since_start > 3 * Second then Some (Inl TimeoutWaitingForReply)
      else case r of
             GotPacket None \<Rightarrow> wait_reply targetIP rest
           | GotPacket (Some arpPacket) \<Rightarrow>
               if is_reply_from targetIP arpPacket then Some (Inr (SourceHwAddress arpPacket))
               else wait_reply targetIP rest
           | ChannelClosed \<Rightarrow> Some (Inl (Panic NilPointerDereference))
           | After100ms \<Rightarrow> wait_reply targetIP rest)"

text \<open>
  \<^verbatim>\<open>GetMAC\<close>: the result with the trace of what the call did to the capture handle. The
  deferred \<^verbatim>\<open>handle.Close()\<close> runs on every return after the handle was opened.
\<close>

definition GetMAC ::
  "resolver_env \<Rightarrow> string \<Rightarrow> string \<Rightarrow> ((resolve_error + HardwareAddr) \<times> action list) option" where
  "GetMAC env ipStr interfaceName =
     (case ParseIP env ipStr of
        None \<Rightarrow> Some (Inl InvalidIPAddress, [])
      | Some targetIP \<Rightarrow>
     (case InterfaceByName env interfaceName of
        None \<Rightarrow> Some (Inl InterfaceNotFound, [])
      | Some iface \<Rightarrow>
     if \<not> OpenLive_ok env then Some (Inl OpenHandleFailed, [])
     else
     (case Addrs iface of
        None \<Rightarrow> Some (Inl InterfaceAddrsFailed, [CloseHandle])
      | Some addrs \<Rightarrow>
     (case first_ipv4 addrs of
        None \<Rightarrow> Some (Inl NoSourceIP, [CloseHandle])
      | Some srcIP \<Rightarrow>
     if \<not> SerializeLayers_ok env then Some (Inl SerializeFailed, [CloseHandle])
     else
       let frame = arp_request (HardwareAddr iface) srcIP targetIP in
       if \<not> WritePacketData_ok env then Some (Inl WriteFailed, [WritePacketData frame, CloseHandle])
       else
         (case wait_reply targetIP (polls env) of
            None \<Rightarrow> None
          | Some result \<Rightarrow> Some (result, [WritePacketData frame, CloseHandle]))))))"


subsection \<open>discovery.Scan\<close>

record Host =
  host_IP :: IP
  host_MAC :: HardwareAddr
  host_Name :: string

record ScanConfig =
  RateLimit :: Duration
  IdleWait :: Duration
  MaxHosts :: go_int
  Promisc :: "bool option"

definition applyDefaults :: "ScanConfig option \<Rightarrow> ScanConfig" where
  "applyDefaults cfg =
     (case cfg of
        None \<Rightarrow> \<lparr>RateLimit = 50 * Microsecond, IdleWait = 500 * Millisecond, MaxHosts = 4096,
                  Promisc = Some True\<rparr>
      | Some c \<Rightarrow>
          let out1 = (if RateLimit c \<le> 0 then c\<lparr>RateLimit := 50 * Microsecond\<rparr> else c);
              out2 = (if IdleWait out1 \<le> 0 then out1\<lparr>IdleWait := 500 * Millisecond\<rparr> else out1);
              out3 = (if MaxHosts out2 = 0 then out2\<lparr>MaxHosts := - 1\<rparr>
                      else if sint (MaxHosts out2) < 0 then out2\<lparr>MaxHosts := - 1\<rparr> else out2);
              out4 = (if sint (MaxHosts out3) > 0 \<and> sint (MaxHosts out3) < 512
                      then out3\<lparr>MaxHosts := 512\<rparr> else out3)
          in if Promisc out4 = None then out4\<lparr>Promisc := Some True\<rparr> else out4)"

text \<open>
  A turn of the probe loop waits in a \<^verbatim>\<open>select\<close> on \<^verbatim>\<open>ctx.Done()\<close> and the ticker: the
  environment says which fires, and with the ticker how the send goes if that turn sends.
  The final wait is a \<^verbatim>\<open>select\<close> on \<^verbatim>\<open>ctx.Done()\<close> and the idle timer.
  \<^verbatim>\<open>net.IPNet.Contains\<close> (of a network's IP and mask) is a parameter, and
  \<open>discoveredHosts\<close> is what the collector goroutines have put into the map when Scan
  reads it.
\<close>

datatype tick = CtxDone | TickerFired send_outcome

datatype idle_select = IdleCtxDone | WaitTimerFired

datatype scan_error =
    ScanInterfaceError | ScanAddrsError | NoIPv4Address | ScanOpenError | FilterError
  | ContextError

record scan_env =
  scan_InterfaceByName :: "string \<Rightarrow> Interface option"
  scan_OpenLive_ok :: bool
  SetBPFFilter_ok :: bool
  Contains :: "IP \<Rightarrow> 8 word list \<Rightarrow> IP \<Rightarrow> bool"
  ticks :: "tick list"
  idle :: idle_select
  discoveredHosts :: "Host list"

fun first_ipv4_net :: "Addr list \<Rightarrow> (IP \<times> IP \<times> 8 word list) option" where
  "first_ipv4_net [] = None"
| "first_ipv4_net (IPNet ip netmask # addrs) =
     (if To4 ip \<noteq> [] then Some (To4 ip, ip, netmask) else first_ipv4_net addrs)"
| "first_ipv4_net (OtherAddr # addrs) = first_ipv4_net addrs"

text \<open>
  The network address \<^verbatim>\<open>currentIP[i] &= mask[i]\<close> and the broadcast address
  \<^verbatim>\<open>broadcastIP[i] |= ^mask[i]\<close>, for the indices that the mask has; \<^verbatim>\<open>inc\<close> adds one
  to the address, carrying from the last byte.
\<close>

fun and_mask :: "8 word list \<Rightarrow> 8 word list \<Rightarrow> 8 word list" where
  "and_mask [] ms = []"
| "and_mask (b # bs) [] = b # bs"
| "and_mask (b # bs) (m # ms) = (b AND m) # and_mask bs ms"

fun or_not_mask :: "8 word list \<Rightarrow> 8 word list \<Rightarrow> 8 word list" where
  "or_not_mask [] ms = []"
| "or_not_mask (b # bs) [] = b # bs"
| "or_not_mask (b # bs) (m # ms) = (b OR NOT m) # or_not_mask bs ms"

fun inc_from_last :: "8 word list \<Rightarrow> 8 word list" where
  "inc_from_last [] = []"
| "inc_from_last (b # bs) = (b + 1) # (if b + 1 > 0 then bs else inc_from_last bs)"

definition inc :: "IP \<Rightarrow> IP" where
  "inc ip = rev (inc_from_last (rev ip))"

text \<open>
  The probe loop: it ends when the address leaves the subnet or the cap is reached,
  returns at once when the context is done, and otherwise skips the first address, the
  broadcast address and its own, and sends a request to every other one. The list holds
  the turns the environment has played; the loop that needs another is still waiting.
\<close>

datatype probe_result = Cancelled "action list" | Probed go_int "action list"

fun probe_loop ::
  "(IP \<Rightarrow> bool) \<Rightarrow> go_int \<Rightarrow> Interface \<Rightarrow> IP \<Rightarrow> IP \<Rightarrow> IP \<Rightarrow> bool \<Rightarrow> go_int \<Rightarrow> action list
     \<Rightarrow> tick list \<Rightarrow> probe_result option" where
  "probe_loop contains maxHosts iface localIP broadcastIP currentIP first scanned sent [] =
     (if \<not> contains currentIP then Some (Probed scanned sent)
      else if sint maxHosts > 0 \<and> sint scanned \<ge> sint maxHosts then Some (Probed scanned sent)
      else None)"
| "probe_loop contains maxHosts iface localIP broadcastIP currentIP first scanned sent (ev # evs) =
     (if \<not> contains currentIP then Some (Probed scanned sent)
      else if sint maxHosts > 0 \<and> sint scanned \<ge> sint maxHosts then Some (Probed scanned sent)
      else case ev of
             CtxDone \<Rightarrow> Some (Cancelled sent)
           | TickerFired outcome \<Rightarrow>
               if first then
                 probe_loop contains maxHosts iface localIP broadcastIP (inc currentIP) False scanned sent evs
               else if IP_Equal currentIP broadcastIP then
                 probe_loop contains maxHosts iface localIP broadcastIP (inc currentIP) first scanned sent evs
               else if IP_Equal currentIP localIP then
                 probe_loop contains maxHosts iface localIP broadcastIP (inc currentIP) first scanned sent evs
               else if outcome \<noteq> Sent then
                 probe_loop contains maxHosts iface localIP broadcastIP (inc currentIP) first scanned
                   (sent @ written outcome (arp_request (HardwareAddr iface) localIP currentIP)) evs
               else
                 probe_loop contains maxHosts iface localIP broadcastIP (inc currentIP) first (scanned + 1)
                   (sent @ written outcome (arp_request (HardwareAddr iface) localIP currentIP)) evs)"

text \<open>\<^verbatim>\<open>Scan\<close>: the result with the trace of what it did to the capture handle.\<close>

definition Scan ::
  "scan_env \<Rightarrow> string \<Rightarrow> ScanConfig option \<Rightarrow> ((scan_error + Host list) \<times> action list) option" where
  "Scan env interfaceName cfg =
     (let config = applyDefaults cfg in
      case scan_InterfaceByName env interfaceName of
        None \<Rightarrow> Some (Inl ScanInterfaceError, [])
      | Some iface \<Rightarrow>
     (case Addrs iface of
        None \<Rightarrow> Some (Inl ScanAddrsError, [])
      | Some addrs \<Rightarrow>
     (case first_ipv4_net addrs of
        None \<Rightarrow> Some (Inl NoIPv4Address, [])
      | Some (localIP, netIP, netmask) \<Rightarrow>
     if \<not> scan_OpenLive_ok env then Some (Inl ScanOpenError, [])
     else if \<not> SetBPFFilter_ok env then Some (Inl FilterError, [CloseHandle])
     else
       let networkIP = and_mask localIP netmask;
           broadcastIP = or_not_mask networkIP netmask
       in case probe_loop (Contains env netIP netmask) (MaxHosts config) iface localIP broadcastIP
                 networkIP True 0 [] (ticks env) of
            None \<Rightarrow> None
          | Some (Cancelled sent) \<Rightarrow> Some (Inl ContextError, sent @ [CloseHandle])
          | Some (Probed scanned sent) \<Rightarrow>
              (case idle env of
                 IdleCtxDone \<Rightarrow> Some (Inr (sort_key host_IP (discoveredHosts env)), sent @ [CloseHandle])
               | WaitTimerFired \<Rightarrow>
                   Some (Inr (sort_key host_IP (discoveredHosts env)), sent @ [CloseHandle])))))"


section \<open>Notions of the statements and sample inputs\<close>

subsection \<open>The aggregator and the detector: sample inputs\<close>

text \<open>
  Records for the concrete instances below: the scenario of three records from two
  sources, with lengths 500, 300 and 200.
\<close>

definition sample_packet :: "string \<Rightarrow> go_int \<Rightarrow> PacketData" where
  "sample_packet ip n =
     \<lparr>Timestamp = 0, SrcIP = ip, DstIP = ''10.0.0.9'', SrcPort = 40000, DstPort = 443,
      Protocol = ''TCP'', Length = n, Hostname = [], EthDst = ''aa:bb:cc:dd:ee:ff''\<rparr>"

definition sample_records :: "(PacketData \<times> Time \<times> Time) list" where
  "sample_records =
     [(sample_packet ''10.0.0.1'' 500, 100, 101),
      (sample_packet ''10.0.0.2'' 300, 200, 201),
      (sample_packet ''10.0.0.1'' 200, 300, 301)]"

text \<open>A record that carries a hostname, and 51 of them with clock readings 0 to 50.\<close>

definition named_packet :: PacketData where
  "named_packet = (sample_packet ''10.0.0.1'' 60)\<lparr>Hostname := ''example.org''\<rparr>"

definition domain_lookups :: "(PacketData \<times> Time \<times> Time) list" where
  "domain_lookups = map (\<lambda>i. (named_packet, int i, int i)) [0..<51]"

subsection \<open>The aggregator and the detector: notions the statements use\<close>

text \<open>The last \<open>n\<close> elements of a list, in order (the whole list when it is shorter).\<close>

definition last_n :: "nat \<Rightarrow> 'a list \<Rightarrow> 'a list" where
  "last_n n xs = drop (length xs - n) xs"

text \<open>
  The domain entries that a run inserts, in order of insertion: one for each record with
  a hostname, stamped with the clock reading of its call.
\<close>

definition inserted_entries :: "(PacketData \<times> Time \<times> Time) list \<Rightarrow> DomainEntry list" where
  "inserted_entries evs =
     map (\<lambda>(pkt, now_entry, now_ad).
            \<lparr>entry_Hostname = Hostname pkt, entry_Timestamp = now_entry,
             entry_Source = domainSource pkt\<rparr>)
         (filter (\<lambda>(pkt, now_entry, now_ad). Hostname pkt \<noteq> []) evs)"

text \<open>The alert history holds the most recent of the alerts raised so far.\<close>

definition history_ok :: "AnomalyDetector \<Rightarrow> bool" where
  "history_ok ad \<longleftrightarrow> alerts ad = last_n (maxAlerts ad) (fired ad)"

text \<open>The alerts of one type among those raised so far, in order.\<close>

definition alerts_of :: "AnomalyType \<Rightarrow> AnomalyDetector \<Rightarrow> Alert list" where
  "alerts_of ty ad = filter (\<lambda>a. Type a = ty) (fired ad)"

text \<open>The broadcast-destined records of a run: those addressed to ff:ff:ff:ff:ff:ff.\<close>

definition broadcasts :: "(PacketData \<times> Time) list \<Rightarrow> (PacketData \<times> Time) list" where
  "broadcasts evs = filter (\<lambda>e. EthDst (fst e) = ''ff:ff:ff:ff:ff:ff'') evs"

text \<open>Every record of the run is processed at or after \<open>start\<close> and less than \<open>d\<close> later.\<close>

definition within_window :: "Time \<Rightarrow> Duration \<Rightarrow> (PacketData \<times> Time) list \<Rightarrow> bool" where
  "within_window start d evs \<longleftrightarrow> (\<forall>e \<in> set evs. start \<le> snd e \<and> snd e < start + d)"

text \<open>A broadcast record, and \<open>n\<close> of them, one every millisecond from the instant \<open>start\<close>.\<close>

definition broadcast_packet :: PacketData where
  "broadcast_packet = (sample_packet ''10.0.0.7'' 60)\<lparr>EthDst := ''ff:ff:ff:ff:ff:ff''\<rparr>"

definition burst :: "Time \<Rightarrow> nat \<Rightarrow> (PacketData \<times> Time) list" where
  "burst start n = map (\<lambda>i. (broadcast_packet, start + 1000000 * int i)) [0..<n]"

text \<open>
  A record for a single host, a run of \<open>n\<close> broadcasts with such a record after each,
  and seven broadcasts from the instant 1.5 s: what a detector has counted before.
\<close>

definition unicast_packet :: PacketData where
  "unicast_packet = sample_packet ''10.0.0.8'' 60"

definition mixed :: "Time \<Rightarrow> nat \<Rightarrow> (PacketData \<times> Time) list" where
  "mixed start n =
     concat (map (\<lambda>i. [(broadcast_packet, start + 1000000 * int i),
                         (unicast_packet, start + 1000000 * int i)]) [0..<n])"

definition earlier_broadcasts :: "(PacketData \<times> Time) list" where
  "earlier_broadcasts = burst 1500000000 7"

text \<open>The call of ProcessPacket on \<open>pkt\<close> at \<open>now\<close> raises an UNSECURE_PROTOCOL alert.\<close>

definition unsecure_raised :: "AnomalyDetector \<Rightarrow> PacketData \<Rightarrow> Time \<Rightarrow> bool" where
  "unsecure_raised ad pkt now \<longleftrightarrow>
     alerts_of AnomalyUnsecure (ad_ProcessPacket pkt now ad) \<noteq> alerts_of AnomalyUnsecure ad"

text \<open>The throttle map as the unsecure rule of a call finds it: after the lazy cleanup.\<close>

definition throttle_seen :: "AnomalyDetector \<Rightarrow> Time \<Rightarrow> (string \<rightharpoonup> Time)" where
  "throttle_seen ad now =
     unsecureAlerts (if Sub now (lastCleanup ad) > CleanupInterval (config ad)
                     then (cleanup now ad)\<lparr>lastCleanup := now\<rparr> else ad)"

definition unsecure_due :: "AnomalyDetector \<Rightarrow> PacketData \<Rightarrow> Time \<Rightarrow> bool" where
  "unsecure_due ad pkt now \<longleftrightarrow>
     unsecurePorts (DstPort pkt) \<noteq> None \<and>
     (case throttle_seen ad now (unsecureKey pkt) of
        None \<Rightarrow> True
      | Some lastAlert \<Rightarrow> Sub now lastAlert > UnsecureCooldown (config ad))"

text \<open>
  An alert raised for the key \<open>K\<close> at \<open>t\<close> is still accounted for at the clock reading
  \<open>T\<close>: the throttle map holds a time between \<open>t\<close> and \<open>T\<close> for the key, or the
  cooldown since \<open>t\<close> is over.
\<close>

definition tracked :: "string \<Rightarrow> Time \<Rightarrow> AnomalyDetector \<Rightarrow> Time \<Rightarrow> bool" where
  "tracked K t ad T \<longleftrightarrow>
     (\<exists>l. unsecureAlerts ad K = Some l \<and> t \<le> l \<and> l \<le> T) \<or> 10 * Second < T - t"

text \<open>Records to the flagged ports 80 and 21 from one source.\<close>

definition web_packet :: PacketData where
  "web_packet = (sample_packet ''10.0.0.1'' 60)\<lparr>DstPort := 80\<rparr>"

definition ftp_packet :: PacketData where
  "ftp_packet = (sample_packet ''10.0.0.1'' 60)\<lparr>DstPort := 21\<rparr>"

subsection \<open>The spoofing engine\<close>

text \<open>
  One restoration round that starts with the \<open>n\<close>-th call of sendARP: the gateway's true
  mapping to the target, the target's to the gateway, then the pause.
\<close>

definition restoration_round :: "(nat \<Rightarrow> send_outcome) \<Rightarrow> Engine \<Rightarrow> nat \<Rightarrow> action list" where
  "restoration_round env e n =
     written (env n) (arp_reply (GatewayMAC e) (GatewayIP e) (TargetMAC e) (TargetIP e)) @
     written (env (n + 1)) (arp_reply (TargetMAC e) (TargetIP e) (GatewayMAC e) (GatewayIP e)) @
     [Sleep (100 * Millisecond)]"

text \<open>The number of frames handed to the capture handle in a trace.\<close>

definition frames_written :: "action list \<Rightarrow> nat" where
  "frames_written as = length (filter (\<lambda>a. case a of WritePacketData f \<Rightarrow> True | _ \<Rightarrow> False) as)"

text \<open>An engine after a successful Start, one that was never started, an empty trace.\<close>

definition running_engine :: Engine where
  "running_engine =
     \<lparr>InterfaceName = ''eth0'', TargetIP = [192, 168, 1, 20], GatewayIP = [192, 168, 1, 1],
      TargetMAC = [2, 0, 0, 0, 0, 20], GatewayMAC = [2, 0, 0, 0, 0, 1], HostMAC = [2, 0, 0, 0, 0, 99],
      has_handle = True, stopChan_closed = False, isRunning = True\<rparr>"

definition idle_engine :: Engine where
  "idle_engine = running_engine\<lparr>has_handle := False, isRunning := False\<rparr>"

definition quiet_wire :: wire where
  "quiet_wire = \<lparr>trace = [], calls = 0\<rparr>"

subsection \<open>The resolver\<close>

text \<open>
  A turn of the wait loop that goes on to the next: its head is within the deadline and
  it receives no reply from the requested address.
\<close>

definition passes :: "IP \<Rightarrow> Duration \<times> received \<Rightarrow> bool" where
  "passes targetIP p \<longleftrightarrow>
     fst p \<le> 3 * Second \<and>
     (case snd p of
        GotPacket None \<Rightarrow> True
      | GotPacket (Some arpPacket) \<Rightarrow> \<not> is_reply_from targetIP arpPacket
      | ChannelClosed \<Rightarrow> False
      | After100ms \<Rightarrow> True)"

text \<open>Everything before the request is written succeeds.\<close>

definition setup_ok :: "resolver_env \<Rightarrow> string \<Rightarrow> string \<Rightarrow> IP \<Rightarrow> Interface \<Rightarrow> IP \<Rightarrow> bool" where
  "setup_ok env ipStr interfaceName targetIP iface srcIP \<longleftrightarrow>
     ParseIP env ipStr = Some targetIP \<and> InterfaceByName env interfaceName = Some iface \<and>
     OpenLive_ok env \<and> (\<exists>addrs. Addrs iface = Some addrs \<and> first_ipv4 addrs = Some srcIP) \<and>
     SerializeLayers_ok env"

text \<open>
  An environment for the concrete instances: \<open>ParseIP\<close> as \<^verbatim>\<open>net.ParseIP\<close> is on the two
  strings used, an interface \<^verbatim>\<open>eth0\<close> with the address 192.168.1.99, and everything
  succeeding; two replies; a wait in which the target answers in time, and one in which
  its reply is only there after the deadline.
\<close>

definition sample_interface :: Interface where
  "sample_interface =
     \<lparr>HardwareAddr = [2, 0, 0, 0, 0, 99],
      Addrs = Some [OtherAddr, IPNet [192, 168, 1, 99] [255, 255, 255, 0]]\<rparr>"

definition sample_resolver_env :: "(Duration \<times> received) list \<Rightarrow> resolver_env" where
  "sample_resolver_env ps =
     \<lparr>ParseIP = (\<lambda>s. if s = ''192.168.1.20'' then Some (v4InV6Prefix @ [192, 168, 1, 20]) else None),
      InterfaceByName = (\<lambda>n. if n = ''eth0'' then Some sample_interface else None),
      OpenLive_ok = True, SerializeLayers_ok = True, WritePacketData_ok = True, polls = ps\<rparr>"

definition reply_from_target :: ARPFrame where
  "reply_from_target = arp_reply [2, 0, 0, 0, 0, 20] [192, 168, 1, 20] [2, 0, 0, 0, 0, 99] [192, 168, 1, 99]"

definition reply_from_other :: ARPFrame where
  "reply_from_other = arp_reply [2, 0, 0, 0, 0, 1] [192, 168, 1, 1] [2, 0, 0, 0, 0, 99] [192, 168, 1, 99]"

definition answered_polls :: "(Duration \<times> received) list" where
  "answered_polls =
     [(50 * Millisecond, After100ms), (150 * Millisecond, GotPacket (Some reply_from_other))] @
     (160 * Millisecond, GotPacket (Some reply_from_target)) #
     [(170 * Millisecond, GotPacket (Some reply_from_other))]"

definition late_polls :: "(Duration \<times> received) list" where
  "late_polls =
     [(50 * Millisecond, After100ms), (2990 * Millisecond, After100ms)] @
     (3050 * Millisecond, GotPacket (Some reply_from_target)) # []"

subsection \<open>The scanner\<close>

text \<open>The setup of Scan succeeds, and the probe loop as Scan starts it.\<close>

definition scan_ready ::
  "scan_env \<Rightarrow> string \<Rightarrow> Interface \<Rightarrow> IP \<Rightarrow> IP \<Rightarrow> 8 word list \<Rightarrow> bool" where
  "scan_ready env interfaceName iface localIP netIP netmask \<longleftrightarrow>
     scan_InterfaceByName env interfaceName = Some iface \<and>
     (\<exists>addrs. Addrs iface = Some addrs \<and> first_ipv4_net addrs = Some (localIP, netIP, netmask)) \<and>
     scan_OpenLive_ok env \<and> SetBPFFilter_ok env"

definition scan_probes ::
  "scan_env \<Rightarrow> ScanConfig option \<Rightarrow> Interface \<Rightarrow> IP \<Rightarrow> IP \<Rightarrow> 8 word list \<Rightarrow> tick list
     \<Rightarrow> probe_result option" where
  "scan_probes env cfg iface localIP netIP netmask evs =
     probe_loop (Contains env netIP netmask) (MaxHosts (applyDefaults cfg)) iface localIP
       (or_not_mask (and_mask localIP netmask) netmask) (and_mask localIP netmask) True 0 [] evs"

text \<open>
  An environment for the concrete instances: an interface with the address
  192.168.1.98/30, \<open>Contains\<close> as \<^verbatim>\<open>net.IPNet.Contains\<close> is on 4-byte masks, and one host
  that has answered.
\<close>

definition subnet_contains :: "IP \<Rightarrow> 8 word list \<Rightarrow> IP \<Rightarrow> bool" where
  "subnet_contains netIP netmask ip \<longleftrightarrow>
     length (To4 ip) = 4 \<and> and_mask (To4 ip) netmask = and_mask (To4 netIP) netmask"

definition lan_interface :: Interface where
  "lan_interface =
     \<lparr>HardwareAddr = [2, 0, 0, 0, 0, 99],
      Addrs = Some [OtherAddr, IPNet [192, 168, 1, 98] [255, 255, 255, 252]]\<rparr>"

definition found_host :: Host where
  "found_host = \<lparr>host_IP = [192, 168, 1, 97], host_MAC = [2, 0, 0, 0, 0, 97], host_Name = []\<rparr>"

definition lan_env :: "tick list \<Rightarrow> idle_select \<Rightarrow> scan_env" where
  "lan_env evs i =
     \<lparr>scan_InterfaceByName = (\<lambda>n. if n = ''eth0'' then Some lan_interface else None),
      scan_OpenLive_ok = True, SetBPFFilter_ok = True, Contains = subnet_contains,
      ticks = evs, idle = i, discoveredHosts = [found_host]\<rparr>"

section \<open>Properties of the aggregator\<close>

subsection \<open>Word arithmetic\<close>

lemma sum_list_word_of_int:
  "(\<Sum>x\<leftarrow>xs. (f x :: 64 word)) = word_of_int (\<Sum>x\<leftarrow>xs. sint (f x))"
  by (induction xs) simp_all

lemma sint_word_of_int_in_range:
  "- (2 ^ 63) \<le> i \<Longrightarrow> i < 2 ^ 63 \<Longrightarrow> sint (word_of_int i :: 64 word) = i"
  by (simp add: sint_sbintrunc' signed_take_bit_int_eq_self)

lemma sint_eq_unat_small:
  assumes "unat (w :: 64 word) < 2 ^ 63"
  shows "sint w = int (unat w)"
proof -
  have "int (unat w) < int (2 ^ 63)" using assms by (simp only: of_nat_less_iff)
  then have hi: "int (unat w) < 2 ^ 63" by simp
  have lo: "- (2 ^ 63) \<le> int (unat w)" by (rule order_trans [of _ 0]) simp_all
  have "sint (word_of_int (int (unat w)) :: 64 word) = int (unat w)"
    by (rule sint_word_of_int_in_range [OF lo hi])
  then show ?thesis by simp
qed

subsection \<open>The cumulative byte total\<close>

lemma totalBytes_ProcessPacket:
  "totalBytes (ProcessPacket pkt t t' s) = totalBytes s + Length pkt"
  by (simp add: ProcessPacket_def Let_def)

lemma totalBytes_run:
  "totalBytes (run s evs) = totalBytes s + (\<Sum>e\<leftarrow>evs. Length (fst e))"
  by (induction s evs rule: run.induct) (simp_all add: totalBytes_ProcessPacket add.assoc)

text \<open>
  C1. After a new aggregator has processed any sequence of records, \<open>totalBytes\<close> is the
  sum of their \<open>Length\<close> fields: every record is counted once. The sum is the one Go
  computes, in \<^verbatim>\<open>int64\<close>; whenever the sum of the signed lengths fits in an \<^verbatim>\<open>int64\<close>, the
  signed value of \<open>totalBytes\<close> is that integer.
\<close>

theorem total_bytes_is_sum_of_lengths:
  "totalBytes (run (NewTrafficStats now now_ad) evs) = (\<Sum>e\<leftarrow>evs. Length (fst e)) \<and>
   (- (2 ^ 63) \<le> (\<Sum>e\<leftarrow>evs. sint (Length (fst e))) \<and>
    (\<Sum>e\<leftarrow>evs. sint (Length (fst e))) < 2 ^ 63 \<longrightarrow>
    sint (totalBytes (run (NewTrafficStats now now_ad) evs)) = (\<Sum>e\<leftarrow>evs. sint (Length (fst e))))"
proof -
  have w: "totalBytes (run (NewTrafficStats now now_ad) evs) = (\<Sum>e\<leftarrow>evs. Length (fst e))"
    by (simp add: totalBytes_run NewTrafficStats_def)
  show ?thesis
    unfolding w using sum_list_word_of_int [of "\<lambda>e. Length (fst e)" evs]
    by (simp add: sint_word_of_int_in_range)
qed

theorem total_bytes_is_sum_of_lengths_witness:
  "(- (2 ^ 63) \<le> (\<Sum>e\<leftarrow>sample_records. sint (Length (fst e))) \<and>
    (\<Sum>e\<leftarrow>sample_records. sint (Length (fst e))) < 2 ^ 63) \<and>
   totalBytes (run (NewTrafficStats 0 0) sample_records) = 1000 \<and>
   sint (totalBytes (run (NewTrafficStats 0 0) sample_records)) = 1000"
proof -
  have s: "(\<Sum>e\<leftarrow>sample_records. sint (Length (fst e))) = 1000"
    by (simp add: sample_records_def sample_packet_def)
  have w: "(\<Sum>e\<leftarrow>sample_records. Length (fst e)) = 1000"
    by (simp add: sample_records_def sample_packet_def)
  from total_bytes_is_sum_of_lengths [of 0 0 sample_records] show ?thesis
    by (simp add: s w)
qed

subsection \<open>Per-protocol packet counts\<close>

lemma protocolCounts_ProcessPacket:
  "protocolCounts (ProcessPacket pkt t t' s) =
     AList.update (if Protocol pkt = [] then ''Unknown'' else Protocol pkt)
       (map_get (protocolCounts s) (if Protocol pkt = [] then ''Unknown'' else Protocol pkt) + 1)
       (protocolCounts s)"
  by (simp add: ProcessPacket_def Let_def)

lemma sum_list_update_incr_word:
  "(\<Sum>p\<leftarrow>AList.update k (map_get al k + 1) al. snd p) = (\<Sum>p\<leftarrow>al. snd p) + 1"
  by (induction al) (auto simp: map_get_def)

lemma sum_list_update_incr_unat:
  "(\<Sum>p\<leftarrow>al. unat (snd p)) < 2 ^ 63 \<Longrightarrow>
   (\<Sum>p\<leftarrow>AList.update k (map_get al k + 1) al. unat (snd p)) = (\<Sum>p\<leftarrow>al. unat (snd p)) + 1"
proof (induction al)
  case Nil
  then show ?case by (simp add: map_get_def)
next
  case (Cons p ps)
  show ?case
  proof (cases "fst p = k")
    case True
    have "unat (snd p) < 2 ^ 63" using Cons.prems by simp
    then have "unat (snd p + 1) = unat (snd p) + 1"
      by (simp add: unat_word_ariths)
    with True show ?thesis by (simp add: map_get_def)
  next
    case False
    have "(\<Sum>p\<leftarrow>ps. unat (snd p)) < 2 ^ 63" using Cons.prems by simp
    from Cons.IH [OF this] False show ?thesis by (simp add: map_get_def)
  qed
qed

lemma protocol_sum_run_word:
  "(\<Sum>p\<leftarrow>protocolCounts (run s evs). snd p) = (\<Sum>p\<leftarrow>protocolCounts s. snd p) + of_nat (length evs)"
  by (induction s evs rule: run.induct)
     (simp_all add: protocolCounts_ProcessPacket sum_list_update_incr_word add.assoc)

lemma protocol_sum_run_unat:
  "(\<Sum>p\<leftarrow>protocolCounts s. unat (snd p)) + length evs < 2 ^ 63 \<Longrightarrow>
   (\<Sum>p\<leftarrow>protocolCounts (run s evs). unat (snd p)) = (\<Sum>p\<leftarrow>protocolCounts s. unat (snd p)) + length evs"
proof (induction s evs rule: run.induct)
  case (1 s)
  then show ?case by simp
next
  case (2 s pkt t t' evs)
  let ?s' = "ProcessPacket pkt t t' s"
  have lt: "(\<Sum>p\<leftarrow>protocolCounts s. unat (snd p)) < 2 ^ 63" using "2.prems" by simp
  have step: "(\<Sum>p\<leftarrow>protocolCounts ?s'. unat (snd p)) = (\<Sum>p\<leftarrow>protocolCounts s. unat (snd p)) + 1"
    by (simp only: protocolCounts_ProcessPacket sum_list_update_incr_unat [OF lt])
  have "(\<Sum>p\<leftarrow>protocolCounts ?s'. unat (snd p)) + length evs < 2 ^ 63"
    using "2.prems" step by simp
  from "2.IH" [OF this] step show ?case by simp
qed

lemma distinct_protocol_run:
  "distinct (map fst (protocolCounts s)) \<Longrightarrow> distinct (map fst (protocolCounts (run s evs)))"
  by (induction s evs rule: run.induct) (simp_all add: protocolCounts_ProcessPacket distinct_update)

lemma sum_sint_eq_sum_unat:
  "(\<Sum>p\<leftarrow>al. unat (snd p :: 64 word)) < 2 ^ 63 \<Longrightarrow>
   (\<Sum>p\<leftarrow>al. sint (snd p)) = int (\<Sum>p\<leftarrow>al. unat (snd p))"
proof (induction al)
  case Nil
  then show ?case by simp
next
  case (Cons p ps)
  have a: "unat (snd p) < 2 ^ 63" and b: "(\<Sum>p\<leftarrow>ps. unat (snd p)) < 2 ^ 63"
    using Cons.prems by simp_all
  show ?case using Cons.IH [OF b] sint_eq_unat_small [OF a] by simp
qed

lemma Unknown_counted:
  "Protocol pkt = [] \<Longrightarrow>
   map_of (protocolCounts (ProcessPacket pkt t t' s)) ''Unknown'' =
     Some (map_get (protocolCounts s) ''Unknown'' + 1)"
  by (simp add: protocolCounts_ProcessPacket update_conv')

text \<open>
  C9. After a new aggregator has processed any sequence of records, the per-protocol
  packet counts, one for each distinct protocol key, add up to the number of records
  processed: in \<^verbatim>\<open>int64\<close> arithmetic always, and as integers for every run of fewer than
  \<open>2^63\<close> records. A record whose protocol field is empty increments the count of the
  key \<^verbatim>\<open>"Unknown"\<close>.
\<close>

theorem protocol_counts_sum_to_records:
  "distinct (map fst (protocolCounts (run (NewTrafficStats now now_ad) evs))) \<and>
   (\<Sum>p\<leftarrow>protocolCounts (run (NewTrafficStats now now_ad) evs). snd p) = of_nat (length evs) \<and>
   (length evs < 2 ^ 63 \<longrightarrow>
      (\<Sum>p\<leftarrow>protocolCounts (run (NewTrafficStats now now_ad) evs). sint (snd p)) = int (length evs)) \<and>
   (Protocol pkt = [] \<longrightarrow>
      map_of (protocolCounts (ProcessPacket pkt t t' s)) ''Unknown'' =
        Some (map_get (protocolCounts s) ''Unknown'' + 1))"
proof -
  let ?s0 = "NewTrafficStats now now_ad"
  have e: "protocolCounts ?s0 = []" by (simp add: NewTrafficStats_def)
  have d: "distinct (map fst (protocolCounts (run ?s0 evs)))"
    by (rule distinct_protocol_run) (simp add: e)
  have w: "(\<Sum>p\<leftarrow>protocolCounts (run ?s0 evs). snd p) = of_nat (length evs)"
    by (simp add: protocol_sum_run_word e)
  have i: "(\<Sum>p\<leftarrow>protocolCounts (run ?s0 evs). sint (snd p)) = int (length evs)"
    if "length evs < 2 ^ 63"
  proof -
    have u: "(\<Sum>p\<leftarrow>protocolCounts (run ?s0 evs). unat (snd p)) = length evs"
      using protocol_sum_run_unat [of ?s0 evs] that by (simp add: e)
    show ?thesis using sum_sint_eq_sum_unat [of "protocolCounts (run ?s0 evs)"] u that by simp
  qed
  show ?thesis using d w i Unknown_counted by blast
qed

theorem protocol_counts_sum_to_records_witness:
  "length sample_records < 2 ^ 63 \<and>
   (\<Sum>p\<leftarrow>protocolCounts (run (NewTrafficStats 0 0) sample_records). sint (snd p)) = 3 \<and>
   Protocol ((sample_packet ''10.0.0.1'' 500)\<lparr>Protocol := []\<rparr>) = [] \<and>
   map_of (protocolCounts
             (ProcessPacket ((sample_packet ''10.0.0.1'' 500)\<lparr>Protocol := []\<rparr>) 1 2
                (NewTrafficStats 0 0))) ''Unknown''
     = Some (map_get (protocolCounts (NewTrafficStats 0 0)) ''Unknown'' + 1)"
proof -
  have l: "length sample_records = 3" by (simp add: sample_records_def)
  have p: "Protocol ((sample_packet ''10.0.0.1'' 500)\<lparr>Protocol := []\<rparr>) = []" by simp
  from protocol_counts_sum_to_records
         [of 0 0 sample_records "(sample_packet ''10.0.0.1'' 500)\<lparr>Protocol := []\<rparr>" 1 2
             "NewTrafficStats 0 0"]
  show ?thesis using l p by simp
qed

subsection \<open>Top talkers\<close>

lemma ipBytes_ProcessPacket:
  "ipBytes (ProcessPacket pkt t t' s) =
     (if SrcIP pkt \<noteq> []
      then AList.update (SrcIP pkt) (map_get (ipBytes s) (SrcIP pkt) + Length pkt) (ipBytes s)
      else ipBytes s)"
  by (simp add: ProcessPacket_def Let_def)

lemma distinct_ipBytes_run:
  "distinct (map fst (ipBytes s)) \<Longrightarrow> distinct (map fst (ipBytes (run s evs)))"
  by (induction s evs rule: run.induct) (simp_all add: ipBytes_ProcessPacket distinct_update)

lemma keys_ipBytes_run:
  "set (map fst (ipBytes (run s evs))) =
     set (map fst (ipBytes s)) \<union> set (filter (\<lambda>ip. ip \<noteq> []) (map (\<lambda>e. SrcIP (fst e)) evs))"
  by (induction s evs rule: run.induct) (auto simp: ipBytes_ProcessPacket dom_update)

lemma length_ipBytes_run:
  "length (ipBytes (run (NewTrafficStats now now_ad) evs)) =
     length (remdups (filter (\<lambda>ip. ip \<noteq> []) (map (\<lambda>e. SrcIP (fst e)) evs)))"
proof -
  let ?s = "run (NewTrafficStats now now_ad) evs"
  have e: "ipBytes (NewTrafficStats now now_ad) = []" by (simp add: NewTrafficStats_def)
  have d: "distinct (map fst (ipBytes ?s))" by (rule distinct_ipBytes_run) (simp add: e)
  have "length (ipBytes ?s) = length (map fst (ipBytes ?s))" by simp
  also have "\<dots> = card (set (map fst (ipBytes ?s)))" using d by (rule distinct_card [symmetric])
  also have "\<dots> = card (set (filter (\<lambda>ip. ip \<noteq> []) (map (\<lambda>e. SrcIP (fst e)) evs)))"
    by (simp only: keys_ipBytes_run e) simp
  also have "\<dots> = length (remdups (filter (\<lambda>ip. ip \<noteq> []) (map (\<lambda>e. SrcIP (fst e)) evs)))"
    by (simp only: length_remdups_card_conv)
  finally show ?thesis .
qed

lemma GetTopTalkers_nonneg:
  assumes "0 \<le> sint limit"
  shows "\<exists>r. GetTopTalkers limit s = Inr r \<and> length r = min (nat (sint limit)) (length (ipBytes s))"
  using assms by (auto simp: GetTopTalkers_def Let_def)

lemma GetTopTalkers_neg:
  assumes "sint limit < 0"
  shows "GetTopTalkers limit s = Inl SliceBoundsOutOfRange"
  using assms by (auto simp: GetTopTalkers_def Let_def)

text \<open>
  C10. On a new aggregator that has processed any sequence of records, GetTopTalkers with
  a limit \<open>n \<ge> 0\<close> returns exactly \<open>min n k\<close> entries, where \<open>k\<close> is the number of distinct
  non-empty source IPs of the records; with a negative limit, when some record had a
  non-empty source IP, the slice \<^verbatim>\<open>stats[:limit]\<close> is out of bounds and the call panics.
\<close>

theorem top_talkers_length_and_panic:
  "(0 \<le> sint limit \<longrightarrow>
      (\<exists>r. GetTopTalkers limit (run (NewTrafficStats now now_ad) evs) = Inr r \<and>
           length r = min (nat (sint limit))
                        (length (remdups (filter (\<lambda>ip. ip \<noteq> []) (map (\<lambda>e. SrcIP (fst e)) evs)))))) \<and>
   (sint limit < 0 \<and> (\<exists>e \<in> set evs. SrcIP (fst e) \<noteq> []) \<longrightarrow>
      GetTopTalkers limit (run (NewTrafficStats now now_ad) evs) = Inl SliceBoundsOutOfRange)"
  using GetTopTalkers_nonneg [of limit "run (NewTrafficStats now now_ad) evs"]
        GetTopTalkers_neg [of limit "run (NewTrafficStats now now_ad) evs"]
  by (simp add: length_ipBytes_run)

theorem top_talkers_witness:
  "(0 \<le> sint (2 :: go_int) \<and>
      (\<exists>r. GetTopTalkers 2 (run (NewTrafficStats 0 0) sample_records) = Inr r \<and> length r = 2)) \<and>
   (sint (- 1 :: go_int) < 0 \<and> SrcIP (fst (hd sample_records)) \<noteq> [] \<and>
      GetTopTalkers (- 1) (run (NewTrafficStats 0 0) sample_records) = Inl SliceBoundsOutOfRange)"
proof -
  have n: "length (remdups (filter (\<lambda>ip. ip \<noteq> []) (map (\<lambda>e. SrcIP (fst e)) sample_records))) = 2"
    by (simp add: sample_records_def sample_packet_def)
  have h: "\<exists>e \<in> set sample_records. SrcIP (fst e) \<noteq> []"
    by (simp add: sample_records_def sample_packet_def)
  have h1: "SrcIP (fst (hd sample_records)) \<noteq> []"
    by (simp add: sample_records_def sample_packet_def)
  from top_talkers_length_and_panic [of 2 0 0 sample_records]
       top_talkers_length_and_panic [of "- 1" 0 0 sample_records] n h h1
  show ?thesis by simp
qed

subsection \<open>The bounded domain log and alert history\<close>

lemma last_n_snoc:
  "last_n n (last_n n xs @ [x]) = last_n n (xs @ [x])"
  by (cases "length xs \<le> n") (auto simp: last_n_def Suc_diff_le)

lemma last_n_short: "length xs \<le> n \<Longrightarrow> last_n n xs = xs"
  by (simp add: last_n_def)

lemma length_last_n: "length (last_n n xs) = min n (length xs)"
  by (auto simp: last_n_def)

lemma truncate_is_last_n:
  "(if length xs > n then drop (length xs - n) xs else xs) = last_n n xs"
  by (simp add: last_n_def)

lemma domainLog_ProcessPacket:
  "domainLog (ProcessPacket pkt t t' s) =
     (if Hostname pkt \<noteq> []
      then last_n (maxDomainLog s)
             (domainLog s @ [\<lparr>entry_Hostname = Hostname pkt, entry_Timestamp = t, entry_Source = domainSource pkt\<rparr>])
      else domainLog s)"
  by (simp add: ProcessPacket_def Let_def last_n_def)

lemma maxDomainLog_ProcessPacket [simp]:
  "maxDomainLog (ProcessPacket pkt t t' s) = maxDomainLog s"
  by (simp add: ProcessPacket_def Let_def)

lemma domainLog_run:
  "domainLog s = last_n (maxDomainLog s) es \<Longrightarrow>
   domainLog (run s evs) = last_n (maxDomainLog s) (es @ inserted_entries evs) \<and>
   maxDomainLog (run s evs) = maxDomainLog s"
proof (induction s evs arbitrary: es rule: run.induct)
  case (1 s)
  then show ?case by (simp add: inserted_entries_def)
next
  case (2 s pkt t t' evs)
  let ?e = "\<lparr>entry_Hostname = Hostname pkt, entry_Timestamp = t, entry_Source = domainSource pkt\<rparr>"
  show ?case
  proof (cases "Hostname pkt = []")
    case True
    then have "domainLog (ProcessPacket pkt t t' s) = last_n (maxDomainLog (ProcessPacket pkt t t' s)) es"
      using "2.prems" by (simp add: domainLog_ProcessPacket)
    from "2.IH" [OF this] True show ?thesis by (simp add: inserted_entries_def)
  next
    case False
    then have "domainLog (ProcessPacket pkt t t' s) = last_n (maxDomainLog (ProcessPacket pkt t t' s)) (es @ [?e])"
      using "2.prems" by (simp add: domainLog_ProcessPacket last_n_snoc)
    from "2.IH" [OF this] False show ?thesis by (simp add: inserted_entries_def)
  qed
qed

lemma addAlert_last_n:
  "alerts (addAlert a ad) = last_n (maxAlerts ad) (alerts ad @ [a]) \<and>
   fired (addAlert a ad) = fired ad @ [a] \<and> maxAlerts (addAlert a ad) = maxAlerts ad"
  by (simp add: addAlert_def Let_def last_n_def)

lemma history_ok_addAlert: "history_ok ad \<Longrightarrow> history_ok (addAlert a ad)"
  by (simp add: history_ok_def addAlert_last_n last_n_snoc)


lemma history_ok_detectBroadcastStorm:
  "history_ok ad \<Longrightarrow> history_ok (detectBroadcastStorm pkt now ad)"
  by (auto simp: detectBroadcastStorm_def Let_def history_ok_def addAlert_last_n last_n_snoc)

lemma history_ok_detectUnsecureProtocol:
  "history_ok ad \<Longrightarrow> history_ok (detectUnsecureProtocol pkt now ad)"
  by (auto simp: detectUnsecureProtocol_def Let_def history_ok_def addAlert_last_n last_n_snoc
           split: option.splits)

lemma history_ok_detectDoS:
  "history_ok ad \<Longrightarrow> history_ok (detectDoS pkt now ad)"
  by (auto simp: detectDoS_def Let_def history_ok_def addAlert_last_n last_n_snoc)

lemma history_ok_cleanup:
  "history_ok ad \<Longrightarrow> history_ok ((cleanup now ad)\<lparr>lastCleanup := t\<rparr>)"
  by (simp add: cleanup_def history_ok_def)

lemma history_ok_ProcessPacket:
  "history_ok ad \<Longrightarrow> history_ok (ad_ProcessPacket pkt now ad)"
  by (simp add: ad_ProcessPacket_def Let_def history_ok_cleanup history_ok_detectBroadcastStorm
        history_ok_detectUnsecureProtocol history_ok_detectDoS)

lemma history_ok_run: "history_ok ad \<Longrightarrow> history_ok (ad_run ad evs)"
  by (induction ad evs rule: ad_run.induct) (simp_all add: history_ok_ProcessPacket)

lemma maxAlerts_detectBroadcastStorm [simp]:
  "maxAlerts (detectBroadcastStorm pkt now ad) = maxAlerts ad"
  by (simp add: detectBroadcastStorm_def Let_def addAlert_def)

lemma maxAlerts_detectUnsecureProtocol [simp]:
  "maxAlerts (detectUnsecureProtocol pkt now ad) = maxAlerts ad"
  by (simp add: detectUnsecureProtocol_def Let_def addAlert_def split: option.splits)

lemma maxAlerts_detectDoS [simp]:
  "maxAlerts (detectDoS pkt now ad) = maxAlerts ad"
  by (simp add: detectDoS_def Let_def addAlert_def)

lemma maxAlerts_ProcessPacket [simp]:
  "maxAlerts (ad_ProcessPacket pkt now ad) = maxAlerts ad"
  by (simp add: ad_ProcessPacket_def Let_def cleanup_def)

lemma maxAlerts_run [simp]: "maxAlerts (ad_run ad evs) = maxAlerts ad"
  by (induction ad evs rule: ad_run.induct) simp_all

lemma last_n_Suc_length:
  "length xs = Suc n \<Longrightarrow> last_n n xs = tl xs"
  by (simp add: last_n_def drop_Suc)

lemma hd_notin_tl_distinct: "distinct xs \<Longrightarrow> xs \<noteq> [] \<Longrightarrow> hd xs \<notin> set (tl xs)"
  by (cases xs) simp_all

text \<open>
  C2. The domain log and the alert history are bounded buffers of capacities 50 and 20
  that keep the most recent entries in insertion order: after any run of a new
  aggregator the domain log is the last 50 of the entries inserted, each addAlert leaves
  the last \<open>maxAlerts\<close> of the history with the new alert appended, and after any run of a
  new detector the history is the last 20 of the alerts raised. So an insertion past
  capacity evicts the oldest entry. After 51 insertions the domain log is the 50 most
  recent entries in insertion order, and the oldest entry is absent from it (when the
  51 entries are distinct values).
\<close>

theorem bounded_buffers_keep_most_recent:
  "domainLog (run (NewTrafficStats now now_ad) evs) = last_n 50 (inserted_entries evs) \<and>
   length (domainLog (run (NewTrafficStats now now_ad) evs)) \<le> 50 \<and>
   alerts (addAlert a ad) = last_n (maxAlerts ad) (alerts ad @ [a]) \<and>
   alerts (ad_run (NewAnomalyDetector cfg now') devs)
     = last_n 20 (fired (ad_run (NewAnomalyDetector cfg now') devs)) \<and>
   length (alerts (ad_run (NewAnomalyDetector cfg now') devs)) \<le> 20 \<and>
   (length (inserted_entries evs) = 51 \<longrightarrow>
      domainLog (run (NewTrafficStats now now_ad) evs) = tl (inserted_entries evs) \<and>
      length (domainLog (run (NewTrafficStats now now_ad) evs)) = 50 \<and>
      (distinct (inserted_entries evs) \<longrightarrow>
         hd (inserted_entries evs) \<notin> set (domainLog (run (NewTrafficStats now now_ad) evs))))"
proof -
  let ?s0 = "NewTrafficStats now now_ad"
  let ?a0 = "NewAnomalyDetector cfg now'"
  have "domainLog ?s0 = last_n (maxDomainLog ?s0) []"
    by (simp add: NewTrafficStats_def last_n_def)
  from domainLog_run [OF this, of evs]
  have d: "domainLog (run ?s0 evs) = last_n 50 (inserted_entries evs)"
    by (simp add: NewTrafficStats_def)
  have "history_ok ?a0" by (simp add: history_ok_def NewAnomalyDetector_def last_n_def)
  then have "history_ok (ad_run ?a0 devs)" by (rule history_ok_run)
  then have h: "alerts (ad_run ?a0 devs) = last_n 20 (fired (ad_run ?a0 devs))"
    by (simp add: history_ok_def NewAnomalyDetector_def)
  have c: "domainLog (run ?s0 evs) = tl (inserted_entries evs) \<and>
      length (domainLog (run ?s0 evs)) = 50 \<and>
      (distinct (inserted_entries evs) \<longrightarrow> hd (inserted_entries evs) \<notin> set (domainLog (run ?s0 evs)))"
    if l: "length (inserted_entries evs) = 51"
  proof -
    have t: "domainLog (run ?s0 evs) = tl (inserted_entries evs)"
      unfolding d using l by (simp add: last_n_Suc_length)
    have ne: "inserted_entries evs \<noteq> []" using l by auto
    show ?thesis unfolding t using l ne by (simp add: hd_notin_tl_distinct)
  qed
  have p2: "length (domainLog (run ?s0 evs)) \<le> 50" by (simp add: d length_last_n)
  have p3: "alerts (addAlert a ad) = last_n (maxAlerts ad) (alerts ad @ [a])"
    by (simp add: addAlert_last_n)
  have p5: "length (alerts (ad_run ?a0 devs)) \<le> 20"
    by (subst h) (simp add: length_last_n)
  show ?thesis
    using d p2 p3 h p5 c by blast
qed

theorem bounded_buffers_keep_most_recent_witness:
  "length (inserted_entries domain_lookups) = 51 \<and>
   distinct (inserted_entries domain_lookups) \<and>
   domainLog (run (NewTrafficStats 0 0) domain_lookups) = tl (inserted_entries domain_lookups) \<and>
   length (domainLog (run (NewTrafficStats 0 0) domain_lookups)) = 50 \<and>
   hd (inserted_entries domain_lookups) \<notin> set (domainLog (run (NewTrafficStats 0 0) domain_lookups))"
proof -
  have e: "inserted_entries domain_lookups =
             map (\<lambda>i. \<lparr>entry_Hostname = ''example.org'', entry_Timestamp = int i,
                        entry_Source = ''SNI''\<rparr>) [0..<51]"
    by (simp add: inserted_entries_def domain_lookups_def named_packet_def sample_packet_def
          domainSource_def filter_map o_def del: upt_rec_numeral)
  have l: "length (inserted_entries domain_lookups) = 51" by (simp only: e length_map length_upt)
  have d: "distinct (inserted_entries domain_lookups)"
    by (simp only: e distinct_map distinct_upt) (simp add: inj_on_def)
  from bounded_buffers_keep_most_recent [of 0 0 domain_lookups]
  show ?thesis using l d by blast
qed

subsection \<open>Rates\<close>

lemma Seconds_eq_0_iff: "Seconds d = 0 \<longleftrightarrow> d = 0"
proof -
  have "d sdiv Second * Second + d smod Second = d" by (rule sdiv_mult_smod_eq)
  then have "real_of_int (d sdiv Second * Second + d smod Second) = real_of_int d" by simp
  then have "real_of_int (d sdiv Second) * 1000000000 + real_of_int (d smod Second) = real_of_int d"
    by (simp add: Second_def)
  then have e: "Seconds d * 1000000000 = real_of_int d"
    by (simp add: Seconds_def divide_simps)
  show ?thesis
  proof
    assume "Seconds d = 0"
    with e have "real_of_int d = 0" by simp
    then show "d = 0" by simp
  next
    assume "d = 0"
    with e have "Seconds d * 1000000000 = 0" by simp
    then show "Seconds d = 0" by simp
  qed
qed

lemma Sub_eq_0_iff: "Sub t u = 0 \<longleftrightarrow> t = u"
  by (auto simp: Sub_def maxDuration_def minDuration_def max_def min_def)

text \<open>
  C3. GetRates called with zero elapsed time since the previous call (the clock reads
  \<open>lastTick\<close>) returns (0, 0) and leaves the whole state, so the window counters and the
  window start, unchanged. Called with positive elapsed time and no records in the
  window it returns (0, 0) and sets the window start to the clock reading; in particular
  so does a second call, later than a first one that reset the window, with no record in
  between, and a second call at the very instant of the first changes nothing.
\<close>

theorem rates_zero_elapsed_and_idle:
  "(now = lastTick s \<longrightarrow> GetRates now s = ((0, 0), s)) \<and>
   (lastTick s < now \<and> windowBytes s = 0 \<and> windowPackets s = 0 \<longrightarrow>
      fst (GetRates now s) = (0, 0) \<and> lastTick (snd (GetRates now s)) = now) \<and>
   (lastTick s < t1 \<and> t1 < t2 \<longrightarrow>
      fst (GetRates t2 (snd (GetRates t1 s))) = (0, 0) \<and>
      lastTick (snd (GetRates t2 (snd (GetRates t1 s)))) = t2 \<and>
      GetRates t1 (snd (GetRates t1 s)) = ((0, 0), snd (GetRates t1 s)))"
  by (auto simp: GetRates_def Let_def Seconds_eq_0_iff Sub_eq_0_iff)

theorem rates_zero_elapsed_and_idle_witness:
  "(0 = lastTick (run (NewTrafficStats 0 0) sample_records) \<and>
    GetRates 0 (run (NewTrafficStats 0 0) sample_records)
      = ((0, 0), run (NewTrafficStats 0 0) sample_records)) \<and>
   (lastTick (NewTrafficStats 0 0) < 5 \<and> windowBytes (NewTrafficStats 0 0) = 0 \<and>
    windowPackets (NewTrafficStats 0 0) = 0 \<and>
    fst (GetRates 5 (NewTrafficStats 0 0)) = (0, 0) \<and>
    lastTick (snd (GetRates 5 (NewTrafficStats 0 0))) = 5) \<and>
   (lastTick (run (NewTrafficStats 0 0) sample_records) < 1000 \<and> (1000 :: int) < 2000 \<and>
    fst (GetRates 2000 (snd (GetRates 1000 (run (NewTrafficStats 0 0) sample_records)))) = (0, 0) \<and>
    lastTick (snd (GetRates 2000 (snd (GetRates 1000 (run (NewTrafficStats 0 0) sample_records)))))
      = 2000)"
proof -
  have lastTick_ProcessPacket: "lastTick (ProcessPacket pkt t t' s) = lastTick s" for pkt t t' s
    by (simp add: ProcessPacket_def Let_def)
  have t: "lastTick (run (NewTrafficStats 0 0) sample_records) = 0"
    by (simp add: sample_records_def lastTick_ProcessPacket NewTrafficStats_def)
  have n: "lastTick (NewTrafficStats 0 0) = 0 \<and> windowBytes (NewTrafficStats 0 0) = 0 \<and>
           windowPackets (NewTrafficStats 0 0) = 0"
    by (simp add: NewTrafficStats_def)
  from rates_zero_elapsed_and_idle [of 0 "run (NewTrafficStats 0 0) sample_records" 1000 2000]
       rates_zero_elapsed_and_idle [of 5 "NewTrafficStats 0 0" 1000 2000]
  show ?thesis using t n by simp
qed

section \<open>Properties of the detector\<close>

subsection \<open>Broadcast storms\<close>

lemma sint_of_nat_small: "n < 2 ^ 63 \<Longrightarrow> sint (of_nat n :: 64 word) = int n"
proof -
  assume a: "n < 2 ^ 63"
  have "int n < int (2 ^ 63)" using a by (simp only: of_nat_less_iff)
  then have hi: "int n < 2 ^ 63" by simp
  have lo: "- (2 ^ 63) \<le> int n" by (rule order_trans [of _ 0]) simp_all
  have "sint (word_of_int (int n) :: 64 word) = int n"
    by (rule sint_word_of_int_in_range [OF lo hi])
  then show ?thesis by simp
qed

lemma Sub_le_iff: "d < maxDuration \<Longrightarrow> minDuration \<le> d \<Longrightarrow> Sub t u > d \<longleftrightarrow> t - u > d"
  by (auto simp: Sub_def max_def min_def)

lemma Sub_gt_Second: "Sub t u > Second \<longleftrightarrow> t - u > Second"
  by (rule Sub_le_iff) (simp_all add: Second_def maxDuration_def minDuration_def)

lemma frame_cleanup:
  "broadcastCount (cleanup now ad) = broadcastCount ad"
  "broadcastWindow (cleanup now ad) = broadcastWindow ad"
  "config (cleanup now ad) = config ad"
  "fired (cleanup now ad) = fired ad"
  by (simp_all add: cleanup_def)

lemma frame_detectUnsecureProtocol:
  "broadcastCount (detectUnsecureProtocol pkt now ad) = broadcastCount ad"
  "broadcastWindow (detectUnsecureProtocol pkt now ad) = broadcastWindow ad"
  "config (detectUnsecureProtocol pkt now ad) = config ad"
  "alerts_of AnomalyBroadcastStorm (detectUnsecureProtocol pkt now ad) = alerts_of AnomalyBroadcastStorm ad"
  by (simp_all add: detectUnsecureProtocol_def Let_def addAlert_def alerts_of_def split: option.splits)

lemma frame_detectDoS:
  "broadcastCount (detectDoS pkt now ad) = broadcastCount ad"
  "broadcastWindow (detectDoS pkt now ad) = broadcastWindow ad"
  "config (detectDoS pkt now ad) = config ad"
  "alerts_of AnomalyBroadcastStorm (detectDoS pkt now ad) = alerts_of AnomalyBroadcastStorm ad"
  by (simp_all add: detectDoS_def Let_def addAlert_def alerts_of_def)

lemma config_detectBroadcastStorm:
  "config (detectBroadcastStorm pkt now ad) = config ad"
  by (simp add: detectBroadcastStorm_def Let_def addAlert_def)


lemma alerts_of_updates [simp]:
  "alerts_of ty (ad\<lparr>broadcastCount := c\<rparr>) = alerts_of ty ad"
  "alerts_of ty (ad\<lparr>broadcastWindow := w\<rparr>) = alerts_of ty ad"
  "alerts_of ty (ad\<lparr>lastCleanup := t\<rparr>) = alerts_of ty ad"
  "alerts_of ty (ad\<lparr>unsecureAlerts := u\<rparr>) = alerts_of ty ad"
  "alerts_of ty (ad\<lparr>ipWindow := iw\<rparr>) = alerts_of ty ad"
  "alerts_of ty (ad\<lparr>ipPacketCount := ic\<rparr>) = alerts_of ty ad"
  "alerts_of ty (cleanup now ad) = alerts_of ty ad"
  by (simp_all add: alerts_of_def cleanup_def)

lemma alerts_of_addAlert:
  "alerts_of ty (addAlert a ad) = alerts_of ty ad @ (if Type a = ty then [a] else [])"
  by (simp add: alerts_of_def addAlert_def Let_def)

lemma addAlert_fields [simp]:
  "broadcastCount (addAlert a ad) = broadcastCount ad"
  "broadcastWindow (addAlert a ad) = broadcastWindow ad"
  "config (addAlert a ad) = config ad"
  "unsecureAlerts (addAlert a ad) = unsecureAlerts ad"
  "ipWindow (addAlert a ad) = ipWindow ad"
  "ipPacketCount (addAlert a ad) = ipPacketCount ad"
  "lastCleanup (addAlert a ad) = lastCleanup ad"
  by (simp_all add: addAlert_def Let_def)

lemma step_accumulate:
  assumes "EthDst pkt = ''ff:ff:ff:ff:ff:ff''"
      and "\<not> Sub now (broadcastWindow ad) > Second"
      and "\<not> sint (broadcastCount ad + 1) > sint (BroadcastThreshold (config ad))"
  shows "broadcastCount (ad_ProcessPacket pkt now ad) = broadcastCount ad + 1"
    and "broadcastWindow (ad_ProcessPacket pkt now ad) = broadcastWindow ad"
    and "config (ad_ProcessPacket pkt now ad) = config ad"
    and "alerts_of AnomalyBroadcastStorm (ad_ProcessPacket pkt now ad) = alerts_of AnomalyBroadcastStorm ad"
  using assms
  by (simp_all add: ad_ProcessPacket_def Let_def frame_detectDoS frame_detectUnsecureProtocol
        detectBroadcastStorm_def frame_cleanup)

lemma step_new_window:
  assumes "EthDst pkt = ''ff:ff:ff:ff:ff:ff''"
      and "Sub now (broadcastWindow ad) > Second"
      and "\<not> sint (1 :: go_int) > sint (BroadcastThreshold (config ad))"
  shows "broadcastCount (ad_ProcessPacket pkt now ad) = 1"
    and "broadcastWindow (ad_ProcessPacket pkt now ad) = now"
    and "config (ad_ProcessPacket pkt now ad) = config ad"
    and "alerts_of AnomalyBroadcastStorm (ad_ProcessPacket pkt now ad) = alerts_of AnomalyBroadcastStorm ad"
  using assms
  by (simp_all add: ad_ProcessPacket_def Let_def frame_detectDoS frame_detectUnsecureProtocol
        detectBroadcastStorm_def frame_cleanup)

lemma step_fire:
  assumes "EthDst pkt = ''ff:ff:ff:ff:ff:ff''"
      and "\<not> Sub now (broadcastWindow ad) > Second"
      and "sint (broadcastCount ad + 1) > sint (BroadcastThreshold (config ad))"
  shows "broadcastCount (ad_ProcessPacket pkt now ad) = 0"
    and "broadcastWindow (ad_ProcessPacket pkt now ad) = now"
    and "config (ad_ProcessPacket pkt now ad) = config ad"
    and "length (alerts_of AnomalyBroadcastStorm (ad_ProcessPacket pkt now ad))
           = Suc (length (alerts_of AnomalyBroadcastStorm ad))"
  using assms
  by (simp_all add: ad_ProcessPacket_def Let_def frame_detectDoS frame_detectUnsecureProtocol
        detectBroadcastStorm_def frame_cleanup alerts_of_addAlert)


lemma of_nat_Suc_word: "(of_nat c :: 64 word) + 1 = of_nat (Suc c)"
  by simp

lemma broadcasts_simps [simp]:
  "broadcasts [] = []"
  "EthDst pkt = ''ff:ff:ff:ff:ff:ff'' \<Longrightarrow> broadcasts ((pkt, now) # evs) = (pkt, now) # broadcasts evs"
  "EthDst pkt \<noteq> ''ff:ff:ff:ff:ff:ff'' \<Longrightarrow> broadcasts ((pkt, now) # evs) = broadcasts evs"
  "broadcasts (xs @ ys) = broadcasts xs @ broadcasts ys"
  by (simp_all add: broadcasts_def)

lemma step_other:
  assumes "EthDst pkt \<noteq> ''ff:ff:ff:ff:ff:ff''"
  shows "broadcastCount (ad_ProcessPacket pkt now ad) = broadcastCount ad"
    and "broadcastWindow (ad_ProcessPacket pkt now ad) = broadcastWindow ad"
    and "config (ad_ProcessPacket pkt now ad) = config ad"
    and "alerts_of AnomalyBroadcastStorm (ad_ProcessPacket pkt now ad) = alerts_of AnomalyBroadcastStorm ad"
  using assms
  by (simp_all add: ad_ProcessPacket_def Let_def frame_detectDoS frame_detectUnsecureProtocol
        detectBroadcastStorm_def frame_cleanup)

lemma no_broadcast_run:
  assumes "broadcasts evs = []"
  shows "broadcastCount (ad_run ad evs) = broadcastCount ad \<and>
         broadcastWindow (ad_run ad evs) = broadcastWindow ad \<and>
         config (ad_run ad evs) = config ad \<and>
         alerts_of AnomalyBroadcastStorm (ad_run ad evs) = alerts_of AnomalyBroadcastStorm ad"
  using assms
proof (induction ad evs rule: ad_run.induct)
  case (1 ad)
  then show ?case by simp
next
  case (2 ad pkt now evs)
  have nb: "EthDst pkt \<noteq> ''ff:ff:ff:ff:ff:ff''"
    using "2.prems" by (auto simp: broadcasts_def split: if_splits)
  then have "broadcasts evs = []" using "2.prems" by simp
  then show ?case using "2.IH" step_other [OF nb, of now ad] by simp
qed

lemma accumulate_run:
  assumes "BroadcastThreshold (config ad) = 50"
      and "broadcastCount ad = of_nat c"
      and "\<forall>e \<in> set (broadcasts evs). snd e \<le> broadcastWindow ad + Second"
      and "c + length (broadcasts evs) \<le> 50"
  shows "broadcastCount (ad_run ad evs) = of_nat (c + length (broadcasts evs)) \<and>
         broadcastWindow (ad_run ad evs) = broadcastWindow ad \<and>
         config (ad_run ad evs) = config ad \<and>
         alerts_of AnomalyBroadcastStorm (ad_run ad evs) = alerts_of AnomalyBroadcastStorm ad"
  using assms
proof (induction evs arbitrary: ad c)
  case Nil
  then show ?case by simp
next
  case (Cons e evs)
  obtain pkt now where e: "e = (pkt, now)" by (cases e)
  let ?ad' = "ad_ProcessPacket pkt now ad"
  show ?case
  proof (cases "EthDst pkt = ''ff:ff:ff:ff:ff:ff''")
    case False
    note st = step_other [OF False, of now ad]
    have 1: "BroadcastThreshold (config ?ad') = 50" using st(3) Cons.prems(1) by simp
    have 2: "broadcastCount ?ad' = of_nat c" using st(1) Cons.prems(2) by simp
    have 3: "\<forall>e \<in> set (broadcasts evs). snd e \<le> broadcastWindow ?ad' + Second"
      using Cons.prems(3) st(2) False by (simp add: e)
    have 4: "c + length (broadcasts evs) \<le> 50" using Cons.prems(4) False by (simp add: e)
    from Cons.IH [OF 1 2 3 4] st False show ?thesis by (simp add: e)
  next
    case True
    have w: "\<not> Sub now (broadcastWindow ad) > Second"
      using Cons.prems(3) True by (simp add: Sub_gt_Second e)
    have "Suc c < 2 ^ 63" using Cons.prems(4) True by (simp add: e)
    then have "sint (of_nat (Suc c) :: 64 word) = int (Suc c)" by (rule sint_of_nat_small)
    then have t: "\<not> sint (broadcastCount ad + 1) > sint (BroadcastThreshold (config ad))"
      using Cons.prems(1,2,4) True by (simp only: of_nat_Suc_word) (simp add: e)
    note st = step_accumulate [OF True w t]
    have 1: "BroadcastThreshold (config ?ad') = 50" using st(3) Cons.prems(1) by simp
    have 2: "broadcastCount ?ad' = of_nat (Suc c)" using st(1) Cons.prems(2) by simp
    have 3: "\<forall>e \<in> set (broadcasts evs). snd e \<le> broadcastWindow ?ad' + Second"
      using Cons.prems(3) st(2) True by (simp add: e)
    have 4: "Suc c + length (broadcasts evs) \<le> 50" using Cons.prems(4) True by (simp add: e)
    from Cons.IH [OF 1 2 3 4] st True show ?thesis by (simp add: e)
  qed
qed

text \<open>From a count of at most 50 in an open window, the broadcasts that bring it to 51.\<close>

lemma fire_run:
  assumes "BroadcastThreshold (config ad) = 50"
      and "broadcastCount ad = of_nat c"
      and "\<forall>e \<in> set (broadcasts evs). snd e \<le> broadcastWindow ad + Second"
      and "c + length (broadcasts evs) = 51" and "c \<le> 50"
  shows "length (alerts_of AnomalyBroadcastStorm (ad_run ad evs))
           = Suc (length (alerts_of AnomalyBroadcastStorm ad)) \<and>
         broadcastCount (ad_run ad evs) = 0"
  using assms
proof (induction evs arbitrary: ad c)
  case Nil
  then show ?case by simp
next
  case (Cons e evs)
  obtain pkt now where e: "e = (pkt, now)" by (cases e)
  let ?ad' = "ad_ProcessPacket pkt now ad"
  show ?case
  proof (cases "EthDst pkt = ''ff:ff:ff:ff:ff:ff''")
    case False
    note st = step_other [OF False, of now ad]
    have 1: "BroadcastThreshold (config ?ad') = 50" using st(3) Cons.prems(1) by simp
    have 2: "broadcastCount ?ad' = of_nat c" using st(1) Cons.prems(2) by simp
    have 3: "\<forall>e \<in> set (broadcasts evs). snd e \<le> broadcastWindow ?ad' + Second"
      using Cons.prems(3) st(2) False by (simp add: e)
    have 4: "c + length (broadcasts evs) = 51" using Cons.prems(4) False by (simp add: e)
    from Cons.IH [OF 1 2 3 4 Cons.prems(5)] st False show ?thesis by (simp add: e)
  next
    case True
    have w: "\<not> Sub now (broadcastWindow ad) > Second"
      using Cons.prems(3) True by (simp add: Sub_gt_Second e)
    have "Suc c < 2 ^ 63" using Cons.prems(5) by simp
    then have s: "sint (of_nat (Suc c) :: 64 word) = int (Suc c)" by (rule sint_of_nat_small)
    show ?thesis
    proof (cases "c = 50")
      case c50: True
      have t: "sint (broadcastCount ad + 1) > sint (BroadcastThreshold (config ad))"
        using Cons.prems(1,2) s c50 by (simp only: of_nat_Suc_word) simp
      note st = step_fire [OF True w t]
      have "broadcasts evs = []" using Cons.prems(4) True c50 by (simp add: e)
      note r = no_broadcast_run [OF this, of ?ad']
      show ?thesis using st r by (simp add: e)
    next
      case c50: False
      have t: "\<not> sint (broadcastCount ad + 1) > sint (BroadcastThreshold (config ad))"
        using Cons.prems(1,2,5) s c50 by (simp only: of_nat_Suc_word) simp
      note st = step_accumulate [OF True w t]
      have 1: "BroadcastThreshold (config ?ad') = 50" using st(3) Cons.prems(1) by simp
      have 2: "broadcastCount ?ad' = of_nat (Suc c)" using st(1) Cons.prems(2) by simp
      have 3: "\<forall>e \<in> set (broadcasts evs). snd e \<le> broadcastWindow ?ad' + Second"
        using Cons.prems(3) st(2) True by (simp add: e)
      have 4: "Suc c + length (broadcasts evs) = 51" using Cons.prems(4) True by (simp add: e)
      have 5: "Suc c \<le> 50" using Cons.prems(5) c50 by simp
      from Cons.IH [OF 1 2 3 4 5] st True show ?thesis by (simp add: e)
    qed
  qed
qed

text \<open>The first broadcast of a run finds the window expired and opens a new one.\<close>

lemma open_window:
  assumes "BroadcastThreshold (config ad) = 50"
      and "broadcasts evs \<noteq> []"
      and "broadcastWindow ad + Second < snd (hd (broadcasts evs))"
  shows "\<exists>pre pkt now post.
           evs = pre @ (pkt, now) # post \<and> broadcasts pre = [] \<and>
           EthDst pkt = ''ff:ff:ff:ff:ff:ff'' \<and> broadcasts evs = (pkt, now) # broadcasts post \<and>
           broadcastCount (ad_run ad (pre @ [(pkt, now)])) = 1 \<and>
           broadcastWindow (ad_run ad (pre @ [(pkt, now)])) = now \<and>
           config (ad_run ad (pre @ [(pkt, now)])) = config ad \<and>
           alerts_of AnomalyBroadcastStorm (ad_run ad (pre @ [(pkt, now)]))
             = alerts_of AnomalyBroadcastStorm ad"
  using assms
proof (induction ad evs rule: ad_run.induct)
  case (1 ad)
  then show ?case by simp
next
  case (2 ad pkt now evs)
  let ?ad' = "ad_ProcessPacket pkt now ad"
  show ?case
  proof (cases "EthDst pkt = ''ff:ff:ff:ff:ff:ff''")
    case True
    have w: "Sub now (broadcastWindow ad) > Second"
      using "2.prems"(3) True by (simp add: Sub_gt_Second)
    have t: "\<not> sint (1 :: go_int) > sint (BroadcastThreshold (config ad))"
      using "2.prems"(1) by simp
    note st = step_new_window [OF True w t]
    have "(pkt, now) # evs = [] @ (pkt, now) # evs \<and> broadcasts [] = [] \<and>
           EthDst pkt = ''ff:ff:ff:ff:ff:ff'' \<and>
           broadcasts ((pkt, now) # evs) = (pkt, now) # broadcasts evs \<and>
           broadcastCount (ad_run ad ([] @ [(pkt, now)])) = 1 \<and>
           broadcastWindow (ad_run ad ([] @ [(pkt, now)])) = now \<and>
           config (ad_run ad ([] @ [(pkt, now)])) = config ad \<and>
           alerts_of AnomalyBroadcastStorm (ad_run ad ([] @ [(pkt, now)]))
             = alerts_of AnomalyBroadcastStorm ad"
      using st True by simp
    then show ?thesis by blast
  next
    case False
    note st = step_other [OF False, of now ad]
    have 1: "BroadcastThreshold (config ?ad') = 50" using st(3) "2.prems"(1) by simp
    have 2: "broadcasts evs \<noteq> []" using "2.prems"(2) False by simp
    have 3: "broadcastWindow ?ad' + Second < snd (hd (broadcasts evs))"
      using "2.prems"(3) False st(2) by simp
    from "2.IH" [OF 1 2 3] obtain pre p n post where
      h: "evs = pre @ (p, n) # post" "broadcasts pre = []"
         "EthDst p = ''ff:ff:ff:ff:ff:ff''" "broadcasts evs = (p, n) # broadcasts post"
         "broadcastCount (ad_run ?ad' (pre @ [(p, n)])) = 1"
         "broadcastWindow (ad_run ?ad' (pre @ [(p, n)])) = n"
         "config (ad_run ?ad' (pre @ [(p, n)])) = config ?ad'"
         "alerts_of AnomalyBroadcastStorm (ad_run ?ad' (pre @ [(p, n)]))
             = alerts_of AnomalyBroadcastStorm ?ad'"
      by blast
    have "(pkt, now) # evs = ((pkt, now) # pre) @ (p, n) # post \<and>
          broadcasts ((pkt, now) # pre) = [] \<and>
          EthDst p = ''ff:ff:ff:ff:ff:ff'' \<and>
          broadcasts ((pkt, now) # evs) = (p, n) # broadcasts post \<and>
          broadcastCount (ad_run ad (((pkt, now) # pre) @ [(p, n)])) = 1 \<and>
          broadcastWindow (ad_run ad (((pkt, now) # pre) @ [(p, n)])) = n \<and>
          config (ad_run ad (((pkt, now) # pre) @ [(p, n)])) = config ad \<and>
          alerts_of AnomalyBroadcastStorm (ad_run ad (((pkt, now) # pre) @ [(p, n)]))
             = alerts_of AnomalyBroadcastStorm ad"
      using h st False by simp
    then show ?thesis by blast
  qed
qed

lemma ad_run_append: "ad_run ad (xs @ ys) = ad_run (ad_run ad xs) ys"
  by (induction ad xs rule: ad_run.induct) simp_all

lemma new_detector_fields:
  "config (NewAnomalyDetector cfg t0) = cfg"
  "broadcastWindow (NewAnomalyDetector cfg t0) = 0"
  "broadcastCount (NewAnomalyDetector cfg t0) = 0"
  "alerts_of ty (NewAnomalyDetector cfg t0) = []"
  by (simp_all add: NewAnomalyDetector_def zeroTime_def alerts_of_def)

lemma within_windowD:
  "within_window start d evs \<Longrightarrow> \<forall>e \<in> set evs. snd e \<le> start + d"
  by (auto simp: within_window_def)

lemma storm_burst:
  assumes th: "BroadcastThreshold (config ad) = 50"
      and len: "length (broadcasts evs) = 51"
      and opn: "broadcastWindow ad + Second < snd (hd (broadcasts evs))"
      and win: "within_window (snd (hd (broadcasts evs))) Second (broadcasts evs)"
  shows "length (alerts_of AnomalyBroadcastStorm (ad_run ad evs))
           = Suc (length (alerts_of AnomalyBroadcastStorm ad)) \<and>
         broadcastCount (ad_run ad evs) = 0"
proof -
  have ne: "broadcasts evs \<noteq> []" using len by auto
  from open_window [OF th ne opn] obtain pre pkt now post where
    h: "evs = pre @ (pkt, now) # post"
       "broadcasts evs = (pkt, now) # broadcasts post"
       "broadcastCount (ad_run ad (pre @ [(pkt, now)])) = 1"
       "broadcastWindow (ad_run ad (pre @ [(pkt, now)])) = now"
       "config (ad_run ad (pre @ [(pkt, now)])) = config ad"
       "alerts_of AnomalyBroadcastStorm (ad_run ad (pre @ [(pkt, now)]))
          = alerts_of AnomalyBroadcastStorm ad"
    by blast
  let ?ad1 = "ad_run ad (pre @ [(pkt, now)])"
  have run: "ad_run ad evs = ad_run ?ad1 post"
    by (subst h(1)) (simp only: ad_run_append ad_run.simps)
  have 1: "BroadcastThreshold (config ?ad1) = 50" using h(5) th by simp
  have 2: "broadcastCount ?ad1 = of_nat 1" using h(3) by simp
  have 3: "\<forall>e \<in> set (broadcasts post). snd e \<le> broadcastWindow ?ad1 + Second"
    using within_windowD [OF win] h(2) h(4) by simp
  have 4: "1 + length (broadcasts post) = 51" using len h(2) by simp
  have 5: "(1 :: nat) \<le> 50" by simp
  from fire_run [OF 1 2 3 4 5] h(6) show ?thesis by (simp add: run)
qed

lemma quiet_window:
  assumes th: "BroadcastThreshold (config ad) = 50"
      and ne: "broadcasts evs \<noteq> []"
      and opn: "broadcastWindow ad + Second < snd (hd (broadcasts evs))"
      and win: "within_window (snd (hd (broadcasts evs))) Second (broadcasts evs)"
      and len: "length (broadcasts evs) \<le> 50"
  shows "broadcastWindow (ad_run ad evs) = snd (hd (broadcasts evs)) \<and>
         config (ad_run ad evs) = config ad \<and>
         alerts_of AnomalyBroadcastStorm (ad_run ad evs) = alerts_of AnomalyBroadcastStorm ad"
proof -
  from open_window [OF th ne opn] obtain pre pkt now post where
    h: "evs = pre @ (pkt, now) # post"
       "broadcasts evs = (pkt, now) # broadcasts post"
       "broadcastCount (ad_run ad (pre @ [(pkt, now)])) = 1"
       "broadcastWindow (ad_run ad (pre @ [(pkt, now)])) = now"
       "config (ad_run ad (pre @ [(pkt, now)])) = config ad"
       "alerts_of AnomalyBroadcastStorm (ad_run ad (pre @ [(pkt, now)]))
          = alerts_of AnomalyBroadcastStorm ad"
    by blast
  let ?ad1 = "ad_run ad (pre @ [(pkt, now)])"
  have run: "ad_run ad evs = ad_run ?ad1 post"
    by (subst h(1)) (simp only: ad_run_append ad_run.simps)
  have 1: "BroadcastThreshold (config ?ad1) = 50" using h(5) th by simp
  have 2: "broadcastCount ?ad1 = of_nat 1" using h(3) by simp
  have 3: "\<forall>e \<in> set (broadcasts post). snd e \<le> broadcastWindow ?ad1 + Second"
    using within_windowD [OF win] h(2) h(4) by simp
  have 4: "1 + length (broadcasts post) \<le> 50" using len h(2) by simp
  from accumulate_run [OF 1 2 3 4] h(2,4,5,6) show ?thesis by (simp add: run)
qed

lemma before_threshold:
  assumes th: "BroadcastThreshold (config ad) = 50"
      and opn: "broadcastWindow ad + Second < snd (hd (broadcasts evs))"
      and win: "within_window (snd (hd (broadcasts evs))) Second (broadcasts evs)"
      and len: "length (broadcasts (take k evs)) \<le> 50"
  shows "alerts_of AnomalyBroadcastStorm (ad_run ad (take k evs))
           = alerts_of AnomalyBroadcastStorm ad"
proof (cases "broadcasts (take k evs) = []")
  case True
  then show ?thesis using no_broadcast_run [of "take k evs" ad] by simp
next
  case False
  have "broadcasts evs = broadcasts (take k evs @ drop k evs)" by simp
  then have sp: "broadcasts evs = broadcasts (take k evs) @ broadcasts (drop k evs)"
    by (simp only: broadcasts_simps)
  have hd: "hd (broadcasts evs) = hd (broadcasts (take k evs))"
    using False by (subst sp) simp
  have o: "broadcastWindow ad + Second < snd (hd (broadcasts (take k evs)))"
    using opn hd by simp
  have "set (broadcasts (take k evs)) \<subseteq> set (broadcasts evs)" by (subst sp) simp
  then have w: "within_window (snd (hd (broadcasts (take k evs)))) Second (broadcasts (take k evs))"
    using win hd by (auto simp: within_window_def)
  from quiet_window [OF th False o w len] show ?thesis by simp
qed

lemma storm_spread:
  assumes th: "BroadcastThreshold (config ad) = 50"
      and ne: "broadcasts ga \<noteq> []" "broadcasts gb \<noteq> []" "broadcasts gc \<noteq> []"
      and len: "length (broadcasts ga) \<le> 50" "length (broadcasts gb) \<le> 50"
               "length (broadcasts gc) \<le> 50"
      and opn: "broadcastWindow ad + Second < snd (hd (broadcasts ga))"
      and win: "within_window (snd (hd (broadcasts ga))) Second (broadcasts ga)"
               "within_window (snd (hd (broadcasts gb))) Second (broadcasts gb)"
               "within_window (snd (hd (broadcasts gc))) Second (broadcasts gc)"
      and sep: "snd (hd (broadcasts ga)) + Second < snd (hd (broadcasts gb))"
               "snd (hd (broadcasts gb)) + Second < snd (hd (broadcasts gc))"
  shows "alerts_of AnomalyBroadcastStorm (ad_run ad (ga @ gb @ gc))
           = alerts_of AnomalyBroadcastStorm ad"
proof -
  note r1 = quiet_window [OF th ne(1) opn win(1) len(1)]
  have c1: "BroadcastThreshold (config (ad_run ad ga)) = 50" using r1 th by simp
  have w1: "broadcastWindow (ad_run ad ga) + Second < snd (hd (broadcasts gb))"
    using r1 sep(1) by simp
  note r2 = quiet_window [OF c1 ne(2) w1 win(2) len(2)]
  have c2: "BroadcastThreshold (config (ad_run (ad_run ad ga) gb)) = 50" using r2 c1 by simp
  have w2: "broadcastWindow (ad_run (ad_run ad ga) gb) + Second < snd (hd (broadcasts gc))"
    using r2 sep(2) by simp
  note r3 = quiet_window [OF c2 ne(3) w2 win(3) len(3)]
  show ?thesis using r1 r2 r3 by (simp add: ad_run_append)
qed

lemma reset_on_alert:
  assumes "length (alerts_of AnomalyBroadcastStorm (detectBroadcastStorm pkt now ad))
             \<noteq> length (alerts_of AnomalyBroadcastStorm ad)"
  shows "broadcastCount (detectBroadcastStorm pkt now ad) = 0 \<and>
         broadcastWindow (detectBroadcastStorm pkt now ad) = now"
  using assms
  by (auto simp: detectBroadcastStorm_def Let_def alerts_of_addAlert split: if_splits)

lemma length_burst: "length (burst start n) = n"
  by (simp add: burst_def)

lemma hd_burst: "0 < n \<Longrightarrow> snd (hd (burst start n)) = start"
  by (simp add: burst_def hd_map upt_conv_Cons)

lemma within_window_burst: "n \<le> 1000 \<Longrightarrow> within_window start Second (burst start n)"
  by (auto simp: burst_def within_window_def Second_def)

lemma burst_nonempty: "0 < n \<Longrightarrow> burst start n \<noteq> []"
  by (simp add: burst_def)

lemma broadcasts_mixed: "broadcasts (mixed start n) = burst start n"
  by (induction n)
     (simp_all add: mixed_def burst_def broadcasts_def broadcast_packet_def unicast_packet_def
        sample_packet_def)

lemma length_mixed: "length (mixed start n) = 2 * n"
  by (induction n) (simp_all add: mixed_def)

lemma ports_mixed: "e \<in> set (mixed start n) \<Longrightarrow> DstPort (fst e) = 443"
  by (auto simp: mixed_def broadcast_packet_def unicast_packet_def sample_packet_def)

subsection \<open>Unsecure protocols\<close>

lemma itoa_flagged:
  "itoa 80 = ''80''" "itoa 21 = ''21''" "itoa 23 = ''23''"
  by code_simp+

lemma unsecureKey_flagged:
  assumes "unsecurePorts (DstPort pkt) \<noteq> None"
  shows "\<exists>sfx. unsecureKey pkt = SrcIP pkt @ sfx \<and> length sfx = 3 \<and>
           (sfx = '':80'' \<and> DstPort pkt = 80 \<or> sfx = '':21'' \<and> DstPort pkt = 21 \<or>
            sfx = '':23'' \<and> DstPort pkt = 23)"
  using assms
  by (auto simp: unsecurePorts_def unsecureKey_def itoa_flagged split: if_splits)

lemma unsecureKey_inj:
  assumes "unsecurePorts (DstPort p) \<noteq> None" "unsecurePorts (DstPort q) \<noteq> None"
      and "unsecureKey p = unsecureKey q"
  shows "SrcIP p = SrcIP q \<and> DstPort p = DstPort q"
proof -
  obtain s1 where 1: "unsecureKey p = SrcIP p @ s1" "length s1 = 3"
     "s1 = '':80'' \<and> DstPort p = 80 \<or> s1 = '':21'' \<and> DstPort p = 21 \<or> s1 = '':23'' \<and> DstPort p = 23"
    using unsecureKey_flagged [OF assms(1)] by blast
  obtain s2 where 2: "unsecureKey q = SrcIP q @ s2" "length s2 = 3"
     "s2 = '':80'' \<and> DstPort q = 80 \<or> s2 = '':21'' \<and> DstPort q = 21 \<or> s2 = '':23'' \<and> DstPort q = 23"
    using unsecureKey_flagged [OF assms(2)] by blast
  have "SrcIP p @ s1 = SrcIP q @ s2" using assms(3) 1(1) 2(1) by simp
  then have "SrcIP p = SrcIP q \<and> s1 = s2" using 1(2) 2(2) by simp
  then show ?thesis using 1(3) 2(3) by auto
qed


lemma frame_unsecure_detectBroadcastStorm:
  "unsecureAlerts (detectBroadcastStorm pkt now ad) = unsecureAlerts ad"
  "alerts_of AnomalyUnsecure (detectBroadcastStorm pkt now ad) = alerts_of AnomalyUnsecure ad"
  by (simp_all add: detectBroadcastStorm_def Let_def alerts_of_addAlert)

lemma frame_unsecure_detectDoS:
  "unsecureAlerts (detectDoS pkt now ad) = unsecureAlerts ad"
  "alerts_of AnomalyUnsecure (detectDoS pkt now ad) = alerts_of AnomalyUnsecure ad"
  by (simp_all add: detectDoS_def Let_def alerts_of_addAlert)

lemma detectUnsecureProtocol_effect:
  "\<exists>a. alerts_of AnomalyUnsecure (detectUnsecureProtocol pkt now ad) =
     alerts_of AnomalyUnsecure ad @
       (if unsecurePorts (DstPort pkt) \<noteq> None \<and>
           (case unsecureAlerts ad (unsecureKey pkt) of
              None \<Rightarrow> True
            | Some lastAlert \<Rightarrow> Sub now lastAlert > UnsecureCooldown (config ad))
        then [a] else [])"
  "unsecureAlerts (detectUnsecureProtocol pkt now ad) =
     (if unsecurePorts (DstPort pkt) \<noteq> None \<and>
         (case unsecureAlerts ad (unsecureKey pkt) of
            None \<Rightarrow> True
          | Some lastAlert \<Rightarrow> Sub now lastAlert > UnsecureCooldown (config ad))
      then (unsecureAlerts ad)(unsecureKey pkt \<mapsto> now) else unsecureAlerts ad)"
  by (auto simp: detectUnsecureProtocol_def Let_def alerts_of_addAlert split: option.splits)

lemma unsecure_view:
  "unsecure_raised ad pkt now = unsecure_due ad pkt now"
  "unsecureAlerts (ad_ProcessPacket pkt now ad) =
     (if unsecure_due ad pkt now then (throttle_seen ad now)(unsecureKey pkt \<mapsto> now)
      else throttle_seen ad now)"
  "config (ad_ProcessPacket pkt now ad) = config ad"
  "\<exists>a. alerts_of AnomalyUnsecure (ad_ProcessPacket pkt now ad) =
         alerts_of AnomalyUnsecure ad @ (if unsecure_due ad pkt now then [a] else [])"
proof -
  let ?ad1 = "if Sub now (lastCleanup ad) > CleanupInterval (config ad)
              then (cleanup now ad)\<lparr>lastCleanup := now\<rparr> else ad"
  let ?ad2 = "detectBroadcastStorm pkt now ?ad1"
  have c: "config ?ad2 = config ad"
    by (simp add: config_detectBroadcastStorm frame_cleanup)
  have u: "unsecureAlerts ?ad2 = throttle_seen ad now"
    by (simp only: frame_unsecure_detectBroadcastStorm throttle_seen_def)
  have f: "alerts_of AnomalyUnsecure ?ad2 = alerts_of AnomalyUnsecure ad"
    by (simp add: frame_unsecure_detectBroadcastStorm)
  have p: "ad_ProcessPacket pkt now ad = detectDoS pkt now (detectUnsecureProtocol pkt now ?ad2)"
    by (simp add: ad_ProcessPacket_def Let_def)
  obtain a where a: "alerts_of AnomalyUnsecure (detectUnsecureProtocol pkt now ?ad2) =
     alerts_of AnomalyUnsecure ?ad2 @ (if unsecure_due ad pkt now then [a] else [])"
    using detectUnsecureProtocol_effect(1) [of pkt now ?ad2]
    unfolding unsecure_due_def u c by blast
  show "unsecure_raised ad pkt now = unsecure_due ad pkt now"
    unfolding unsecure_raised_def p by (simp add: frame_unsecure_detectDoS a f)
  show "unsecureAlerts (ad_ProcessPacket pkt now ad) =
     (if unsecure_due ad pkt now then (throttle_seen ad now)(unsecureKey pkt \<mapsto> now)
      else throttle_seen ad now)"
    unfolding p frame_unsecure_detectDoS detectUnsecureProtocol_effect(2) u c unsecure_due_def
    by simp
  show "config (ad_ProcessPacket pkt now ad) = config ad"
    unfolding p by (simp add: frame_detectDoS frame_detectUnsecureProtocol c)
  show "\<exists>a. alerts_of AnomalyUnsecure (ad_ProcessPacket pkt now ad) =
         alerts_of AnomalyUnsecure ad @ (if unsecure_due ad pkt now then [a] else [])"
    unfolding p using a by (auto simp: frame_unsecure_detectDoS f)
qed

lemma throttle_seen_cases:
  "throttle_seen ad now k = Some l \<Longrightarrow> unsecureAlerts ad k = Some l"
  "unsecureAlerts ad k = Some l \<Longrightarrow>
     throttle_seen ad now k = Some l \<or>
     (throttle_seen ad now k = None \<and> Sub now l > DataRetention (config ad))"
  "unsecureAlerts ad k = None \<Longrightarrow> throttle_seen ad now k = None"
  by (auto simp: throttle_seen_def cleanup_def split: option.splits if_splits)


lemma Sub_gt_cooldown: "Sub t u > UnsecureCooldown DefaultConfig \<longleftrightarrow> t - u > 10 * Second"
  unfolding DefaultConfig_def
  by (simp, rule Sub_le_iff) (simp_all add: Second_def maxDuration_def minDuration_def)

lemma Sub_gt_retention: "Sub t u > DataRetention DefaultConfig \<longleftrightarrow> t - u > 300 * Second"
  unfolding DefaultConfig_def
  by (simp add: Minute_def, rule Sub_le_iff) (simp_all add: Second_def maxDuration_def minDuration_def)

lemma tracked_after_raise:
  "unsecure_due ad pkt now \<Longrightarrow> tracked (unsecureKey pkt) now (ad_ProcessPacket pkt now ad) now"
  by (simp add: tracked_def unsecure_view(2))

lemma tracked_step:
  assumes c: "config ad = DefaultConfig" and tr: "tracked K t ad T" and le: "T \<le> now"
  shows "tracked K t (ad_ProcessPacket pkt now ad) now"
  using tr unfolding tracked_def
proof
  assume "\<exists>l. unsecureAlerts ad K = Some l \<and> t \<le> l \<and> l \<le> T"
  then obtain l where l: "unsecureAlerts ad K = Some l" "t \<le> l" "l \<le> T" by blast
  from throttle_seen_cases(2) [OF l(1), of now]
  show "(\<exists>l. unsecureAlerts (ad_ProcessPacket pkt now ad) K = Some l \<and> t \<le> l \<and> l \<le> now) \<or>
        10 * Second < now - t"
  proof
    assume "throttle_seen ad now K = Some l"
    then show ?thesis using l le by (auto simp: unsecure_view(2))
  next
    assume "throttle_seen ad now K = None \<and> DataRetention (config ad) < Sub now l"
    then have "300 * Second < now - l" using c by (simp add: Sub_gt_retention)
    then show ?thesis using l by (simp add: Second_def)
  qed
next
  assume "10 * Second < T - t"
  then show "(\<exists>l. unsecureAlerts (ad_ProcessPacket pkt now ad) K = Some l \<and> t \<le> l \<and> l \<le> now) \<or>
        10 * Second < now - t"
    using le by simp
qed

lemma config_ad_run [simp]: "config (ad_run ad evs) = config ad"
  by (induction ad evs rule: ad_run.induct) (simp_all add: unsecure_view(3))

lemma tracked_run:
  assumes "config ad = DefaultConfig" and "tracked K t ad T"
      and "sorted (map snd evs)" and "\<forall>e \<in> set evs. T \<le> snd e \<and> snd e \<le> u" and "T \<le> u"
  shows "\<exists>T'. T' \<le> u \<and> tracked K t (ad_run ad evs) T'"
  using assms
proof (induction evs arbitrary: ad T)
  case Nil
  then show ?case by auto
next
  case (Cons e evs)
  obtain pkt now where e: "e = (pkt, now)" by (cases e)
  have 1: "config (ad_ProcessPacket pkt now ad) = DefaultConfig"
    using Cons.prems(1) by (simp add: unsecure_view(3))
  have le: "T \<le> now" "now \<le> u" using Cons.prems(4) e by auto
  have 2: "tracked K t (ad_ProcessPacket pkt now ad) now"
    by (rule tracked_step [OF Cons.prems(1,2) le(1)])
  have 3: "sorted (map snd evs)" using Cons.prems(3) by simp
  have 4: "\<forall>e \<in> set evs. now \<le> snd e \<and> snd e \<le> u"
    using Cons.prems(3,4) e by auto
  from Cons.IH [OF 1 2 3 4 le(2)] show ?case by (simp add: e)
qed

lemma tracked_throttles:
  assumes c: "config ad = DefaultConfig" and tr: "tracked K t ad T" and le: "T \<le> u"
      and due: "unsecure_due ad q u" and k: "unsecureKey q = K"
  shows "10 * Second < u - t"
  using tr unfolding tracked_def
proof
  assume "\<exists>l. unsecureAlerts ad K = Some l \<and> t \<le> l \<and> l \<le> T"
  then obtain l where l: "unsecureAlerts ad K = Some l" "t \<le> l" "l \<le> T" by blast
  from throttle_seen_cases(2) [OF l(1), of u]
  show ?thesis
  proof
    assume "throttle_seen ad u K = Some l"
    then have "10 * Second < u - l"
      using due c k by (simp add: unsecure_due_def Sub_gt_cooldown)
    then show ?thesis using l by simp
  next
    assume "throttle_seen ad u K = None \<and> DataRetention (config ad) < Sub u l"
    then have "300 * Second < u - l" using c by (simp add: Sub_gt_retention)
    then show ?thesis using l by (simp add: Second_def)
  qed
next
  assume "10 * Second < T - t"
  then show ?thesis using le by simp
qed


lemma throttle_pair:
  assumes srt: "sorted (map snd (xs @ (p, t) # ys @ (q, u) # zs))"
      and same: "SrcIP p = SrcIP q" "DstPort p = DstPort q"
      and r1: "unsecure_raised (ad_run (NewAnomalyDetector DefaultConfig t0) xs) p t"
      and r2: "unsecure_raised (ad_run (NewAnomalyDetector DefaultConfig t0) (xs @ (p, t) # ys)) q u"
  shows "10 * Second < u - t"
proof -
  let ?ad0 = "NewAnomalyDetector DefaultConfig t0"
  let ?ad1 = "ad_run ?ad0 xs"
  let ?ad2 = "ad_ProcessPacket p t ?ad1"
  let ?ad3 = "ad_run ?ad2 ys"
  have c1: "config ?ad1 = DefaultConfig" by (simp add: new_detector_fields)
  have c2: "config ?ad2 = DefaultConfig" by (simp add: unsecure_view(3) new_detector_fields)
  have c3: "config ?ad3 = DefaultConfig" using c2 by simp
  have k: "unsecureKey q = unsecureKey p" using same by (simp add: unsecureKey_def)
  have tr2: "tracked (unsecureKey p) t ?ad2 t"
    using r1 by (simp add: unsecure_view(1) tracked_after_raise)
  have s1: "sorted (map snd ((p, t) # ys @ (q, u) # zs))"
    using srt by (simp add: sorted_append)
  have s2: "sorted (map snd ys)" using s1 by (simp add: sorted_append)
  have b: "\<forall>e \<in> set ys. t \<le> snd e \<and> snd e \<le> u" using s1 by (auto simp: sorted_append)
  have tu: "t \<le> u" using s1 by (auto simp: sorted_append)
  obtain T' where T': "T' \<le> u" "tracked (unsecureKey p) t ?ad3 T'"
    using tracked_run [OF c2 tr2 s2 b tu] by blast
  have run: "ad_run ?ad0 (xs @ (p, t) # ys) = ?ad3" by (simp add: ad_run_append)
  have due: "unsecure_due ?ad3 q u" using r2 by (simp add: run unsecure_view(1))
  show ?thesis by (rule tracked_throttles [OF c3 T'(2) T'(1) due k])
qed

lemma dom_unsecureAlerts_step:
  "dom (unsecureAlerts (ad_ProcessPacket pkt now ad)) \<subseteq>
     dom (unsecureAlerts ad) \<union> (if unsecurePorts (DstPort pkt) \<noteq> None then {unsecureKey pkt} else {})"
  using throttle_seen_cases(1) [of ad now]
  by (auto simp: unsecure_view(2) unsecure_due_def split: if_splits)

lemma dom_unsecureAlerts_run:
  "dom (unsecureAlerts (ad_run ad evs)) \<subseteq>
     dom (unsecureAlerts ad) \<union>
     unsecureKey ` {pkt. pkt \<in> fst ` set evs \<and> unsecurePorts (DstPort pkt) \<noteq> None}"
proof (induction ad evs rule: ad_run.induct)
  case (1 ad)
  then show ?case by simp
next
  case (2 ad pkt now evs)
  show ?case
  proof
    fix k assume "k \<in> dom (unsecureAlerts (ad_run ad ((pkt, now) # evs)))"
    then have "k \<in> dom (unsecureAlerts (ad_run (ad_ProcessPacket pkt now ad) evs))" by simp
    with "2.IH" have "k \<in> dom (unsecureAlerts (ad_ProcessPacket pkt now ad)) \<or>
       k \<in> unsecureKey ` {p. p \<in> fst ` set evs \<and> unsecurePorts (DstPort p) \<noteq> None}"
      by blast
    then show "k \<in> dom (unsecureAlerts ad) \<union>
       unsecureKey ` {p. p \<in> fst ` set ((pkt, now) # evs) \<and> unsecurePorts (DstPort p) \<noteq> None}"
    proof
      assume "k \<in> dom (unsecureAlerts (ad_ProcessPacket pkt now ad))"
      with dom_unsecureAlerts_step [of pkt now ad]
      have "k \<in> dom (unsecureAlerts ad) \<or> (unsecurePorts (DstPort pkt) \<noteq> None \<and> k = unsecureKey pkt)"
        by (auto split: if_splits)
      then show ?thesis by auto
    next
      assume "k \<in> unsecureKey ` {p. p \<in> fst ` set evs \<and> unsecurePorts (DstPort p) \<noteq> None}"
      then show ?thesis by auto
    qed
  qed
qed

lemma first_of_pair_raises:
  assumes fl: "unsecurePorts (DstPort q) \<noteq> None"
      and new: "\<forall>e \<in> set xs. SrcIP (fst e) \<noteq> SrcIP q \<or> DstPort (fst e) \<noteq> DstPort q"
  shows "unsecure_raised (ad_run (NewAnomalyDetector DefaultConfig t0) xs) q u"
proof -
  let ?ad = "ad_run (NewAnomalyDetector DefaultConfig t0) xs"
  have "unsecureKey q \<notin> dom (unsecureAlerts ?ad)"
  proof
    assume "unsecureKey q \<in> dom (unsecureAlerts ?ad)"
    then have "unsecureKey q \<in> unsecureKey ` {pkt. pkt \<in> fst ` set xs \<and> unsecurePorts (DstPort pkt) \<noteq> None}"
      using dom_unsecureAlerts_run [of "NewAnomalyDetector DefaultConfig t0" xs]
      by (auto simp: NewAnomalyDetector_def)
    then obtain e where e: "e \<in> set xs" "unsecurePorts (DstPort (fst e)) \<noteq> None"
        "unsecureKey q = unsecureKey (fst e)"
      by auto
    from unsecureKey_inj [OF fl e(2) e(3)] new e(1) show False by auto
  qed
  then have "unsecureAlerts ?ad (unsecureKey q) = None" by auto
  then have "throttle_seen ?ad u (unsecureKey q) = None" by (rule throttle_seen_cases(3))
  then show ?thesis using fl by (simp add: unsecure_view(1) unsecure_due_def)
qed

lemma raised_only_flagged:
  "unsecure_raised ad pkt now \<Longrightarrow> DstPort pkt = 80 \<or> DstPort pkt = 21 \<or> DstPort pkt = 23"
  by (auto simp: unsecure_view(1) unsecure_due_def unsecurePorts_def split: if_splits)

lemma flagged_iff: "unsecurePorts port \<noteq> None \<longleftrightarrow> port = 80 \<or> port = 21 \<or> port = 23"
  by (simp add: unsecurePorts_def)

lemma two_records_five_seconds:
  assumes "SrcIP p2 = SrcIP p1" "DstPort p1 = 80" "DstPort p2 = 80"
  shows "length (alerts_of AnomalyUnsecure
           (ad_run (NewAnomalyDetector DefaultConfig t0) [(p1, t1), (p2, t1 + 5 * Second)])) = 1"
proof -
  let ?ad0 = "NewAnomalyDetector DefaultConfig t0"
  let ?ad1 = "ad_ProcessPacket p1 t1 ?ad0"
  let ?t2 = "t1 + 5 * Second"
  have k: "unsecureKey p2 = unsecureKey p1" using assms by (simp add: unsecureKey_def)
  have "unsecureAlerts ?ad0 (unsecureKey p1) = None" by (simp add: NewAnomalyDetector_def)
  then have "throttle_seen ?ad0 t1 (unsecureKey p1) = None" by (rule throttle_seen_cases(3))
  then have d1: "unsecure_due ?ad0 p1 t1" using assms by (simp add: unsecure_due_def unsecurePorts_def)
  have c1: "config ?ad1 = DefaultConfig" by (simp add: unsecure_view(3) new_detector_fields)
  have u1: "unsecureAlerts ?ad1 (unsecureKey p1) = Some t1" using d1 by (simp add: unsecure_view(2))
  have nr: "\<not> Sub ?t2 t1 > DataRetention (config ?ad1)"
    by (simp add: c1 Sub_gt_retention Second_def)
  from throttle_seen_cases(2) [OF u1, of ?t2] nr
  have "throttle_seen ?ad1 ?t2 (unsecureKey p1) = Some t1" by blast
  then have d2: "\<not> unsecure_due ?ad1 p2 ?t2"
    by (simp add: unsecure_due_def k c1 Sub_gt_cooldown Second_def)
  obtain a where a: "alerts_of AnomalyUnsecure ?ad1 = alerts_of AnomalyUnsecure ?ad0 @ [a]"
    using unsecure_view(4) [of p1 t1 ?ad0] d1 by auto
  obtain b where b: "alerts_of AnomalyUnsecure (ad_ProcessPacket p2 ?t2 ?ad1) = alerts_of AnomalyUnsecure ?ad1"
    using unsecure_view(4) [of p2 ?t2 ?ad1] d2 by auto
  show ?thesis by (simp add: a b new_detector_fields)
qed

text \<open>
  C5. On a new detector with the default configuration and a clock that does not run
  backwards, UNSECURE_PROTOCOL alerts are throttled per (source IP, destination port):
  two calls that both raise the alert for records with the same source IP and the same
  destination port are more than the 10-second cooldown apart, so any 10 seconds hold at
  most one alert of a pair. Only the flagged ports 80, 21 and 23 raise it, and the
  throttle is per pair: a record to a flagged port whose pair no earlier record of the
  run had raises the alert whatever other pairs did. In particular two records from the
  same source IP to port 80, five seconds apart, raise exactly one alert.
\<close>

theorem unsecure_alerts_throttled_per_pair:
  "(sorted (map snd (xs @ (p, t) # ys @ (q, u) # zs)) \<and>
    SrcIP p = SrcIP q \<and> DstPort p = DstPort q \<and>
    unsecure_raised (ad_run (NewAnomalyDetector DefaultConfig t0) xs) p t \<and>
    unsecure_raised (ad_run (NewAnomalyDetector DefaultConfig t0) (xs @ (p, t) # ys)) q u \<longrightarrow>
      10 * Second < u - t) \<and>
   (unsecure_raised ad pkt now \<longrightarrow> DstPort pkt = 80 \<or> DstPort pkt = 21 \<or> DstPort pkt = 23) \<and>
   ((DstPort r = 80 \<or> DstPort r = 21 \<or> DstPort r = 23) \<and>
    (\<forall>e \<in> set earlier. SrcIP (fst e) \<noteq> SrcIP r \<or> DstPort (fst e) \<noteq> DstPort r) \<longrightarrow>
      unsecure_raised (ad_run (NewAnomalyDetector DefaultConfig t0) earlier) r v) \<and>
   (SrcIP p2 = SrcIP p1 \<and> DstPort p1 = 80 \<and> DstPort p2 = 80 \<longrightarrow>
      length (alerts_of AnomalyUnsecure
                (ad_run (NewAnomalyDetector DefaultConfig t0) [(p1, t1), (p2, t1 + 5 * Second)])) = 1)"
proof (intro conjI impI)
  assume "sorted (map snd (xs @ (p, t) # ys @ (q, u) # zs)) \<and>
    SrcIP p = SrcIP q \<and> DstPort p = DstPort q \<and>
    unsecure_raised (ad_run (NewAnomalyDetector DefaultConfig t0) xs) p t \<and>
    unsecure_raised (ad_run (NewAnomalyDetector DefaultConfig t0) (xs @ (p, t) # ys)) q u"
  then show "10 * Second < u - t" using throttle_pair [of xs p t ys q u zs t0] by blast
next
  assume "unsecure_raised ad pkt now"
  then show "DstPort pkt = 80 \<or> DstPort pkt = 21 \<or> DstPort pkt = 23"
    by (rule raised_only_flagged)
next
  assume a: "(DstPort r = 80 \<or> DstPort r = 21 \<or> DstPort r = 23) \<and>
    (\<forall>e \<in> set earlier. SrcIP (fst e) \<noteq> SrcIP r \<or> DstPort (fst e) \<noteq> DstPort r)"
  then have "unsecurePorts (DstPort r) \<noteq> None" by (simp only: flagged_iff)
  then show "unsecure_raised (ad_run (NewAnomalyDetector DefaultConfig t0) earlier) r v"
    using a by (intro first_of_pair_raises) blast+
next
  assume "SrcIP p2 = SrcIP p1 \<and> DstPort p1 = 80 \<and> DstPort p2 = 80"
  then show "length (alerts_of AnomalyUnsecure
                (ad_run (NewAnomalyDetector DefaultConfig t0) [(p1, t1), (p2, t1 + 5 * Second)])) = 1"
    using two_records_five_seconds [of p2 p1 t0 t1] by blast
qed


theorem unsecure_alerts_throttled_per_pair_witness:
  "(sorted (map snd ([] @ (web_packet, 100 * Second) # [] @ (web_packet, 111 * Second) # [])) \<and>
    SrcIP web_packet = SrcIP web_packet \<and> DstPort web_packet = DstPort web_packet \<and>
    unsecure_raised (ad_run (NewAnomalyDetector DefaultConfig 0) []) web_packet (100 * Second) \<and>
    unsecure_raised (ad_run (NewAnomalyDetector DefaultConfig 0) ([] @ (web_packet, 100 * Second) # []))
      web_packet (111 * Second) \<and>
    10 * Second < 111 * Second - 100 * Second) \<and>
   (DstPort web_packet = 80 \<or> DstPort web_packet = 21 \<or> DstPort web_packet = 23) \<and>
   (DstPort (fst (ftp_packet, 50 * Second)) \<noteq> DstPort web_packet \<and>
    unsecure_raised (ad_run (NewAnomalyDetector DefaultConfig 0) [(ftp_packet, 50 * Second)])
      web_packet (51 * Second)) \<and>
   (SrcIP web_packet = SrcIP web_packet \<and> DstPort web_packet = 80 \<and>
    length (alerts_of AnomalyUnsecure
              (ad_run (NewAnomalyDetector DefaultConfig 0)
                 [(web_packet, 100 * Second), (web_packet, 100 * Second + 5 * Second)])) = 1)"
proof -
  have h1: "sorted (map snd ([] @ (web_packet, 100 * Second) # [] @ (web_packet, 111 * Second) # []))"
    by (simp add: Second_def)
  have h2: "unsecure_raised (ad_run (NewAnomalyDetector DefaultConfig 0) []) web_packet (100 * Second)"
    by code_simp
  have h3: "unsecure_raised (ad_run (NewAnomalyDetector DefaultConfig 0) ([] @ (web_packet, 100 * Second) # []))
      web_packet (111 * Second)"
    by code_simp
  have h4: "DstPort web_packet = 80" by (simp add: web_packet_def)
  have h5: "\<forall>e \<in> set [(ftp_packet, 50 * Second)].
              SrcIP (fst e) \<noteq> SrcIP web_packet \<or> DstPort (fst e) \<noteq> DstPort web_packet"
    by (simp add: web_packet_def ftp_packet_def)
  have h6: "DstPort ftp_packet \<noteq> 80" by (simp add: ftp_packet_def)
  from unsecure_alerts_throttled_per_pair
         [of "[]" web_packet "100 * Second" "[]" web_packet "111 * Second" "[]" 0
             "ad_run (NewAnomalyDetector DefaultConfig 0) []" web_packet "100 * Second"
             web_packet "[(ftp_packet, 50 * Second)]" "51 * Second" web_packet web_packet "100 * Second"]
       h1 h2 h3 h4 h5 h6
  show ?thesis by simp
qed

subsection \<open>Possible DoS, and the broadcast scenarios\<close>

lemma small_incr:
  assumes "unat (c :: 64 word) \<le> n" "n < 500"
  shows "unat (c + 1) \<le> Suc n" "\<not> sint (c + 1) > 500"
proof -
  have u: "unat (c + 1) = unat c + 1"
    using assms by (simp add: unat_word_ariths)
  then show "unat (c + 1) \<le> Suc n" using assms by simp
  have "unat (c + 1) < 2 ^ 63" using u assms by simp
  then have "sint (c + 1) = int (unat (c + 1))" by (rule sint_eq_unat_small)
  then have "sint (c + 1) = int (unat c) + 1" using u by (simp only: of_nat_add of_nat_1)
  moreover have "int (unat c) \<le> int n" using assms(1) by (simp only: of_nat_le_iff)
  moreover have "int n < 500" using assms(2) by simp
  ultimately show "\<not> sint (c + 1) > 500" by linarith
qed

lemma zero_incr: "unat (0 + 1 :: 64 word) \<le> Suc n" "\<not> sint (0 + 1 :: 64 word) > 500"
  by simp_all

lemma detectDoS_quiet:
  assumes b: "\<forall>ip. unat (count_at (ipPacketCount ad) ip) \<le> n" and n: "n < 500"
      and c: "DoSThreshold (config ad) = 500"
  shows "(\<forall>ip. unat (count_at (ipPacketCount (detectDoS pkt now ad)) ip) \<le> Suc n) \<and>
         alerts_of AnomalyDoS (detectDoS pkt now ad) = alerts_of AnomalyDoS ad"
proof (cases "SrcIP pkt = []")
  case True
  then show ?thesis using b by (auto simp: detectDoS_def intro: le_SucI)
next
  case False
  let ?ip = "SrcIP pkt"
  have bi: "unat (count_at (ipPacketCount ad) ?ip) \<le> n" using b by blast
  note s = small_incr [OF bi n]
  have other: "\<And>ip. unat (count_at (ipPacketCount ad) ip) \<le> Suc n" using b by (auto intro: le_SucI)
  show ?thesis
    using False s other zero_incr(1) [of n] zero_incr(2) c
    by (auto simp: detectDoS_def Let_def count_at_def time_at_def alerts_of_updates)
qed


lemma dos_part_others:
  "ipPacketCount (detectBroadcastStorm pkt now ad) = ipPacketCount ad"
  "alerts_of AnomalyDoS (detectBroadcastStorm pkt now ad) = alerts_of AnomalyDoS ad"
  "ipPacketCount (detectUnsecureProtocol pkt now ad) = ipPacketCount ad"
  "alerts_of AnomalyDoS (detectUnsecureProtocol pkt now ad) = alerts_of AnomalyDoS ad"
  by (simp_all add: detectBroadcastStorm_def detectUnsecureProtocol_def Let_def alerts_of_addAlert
        split: option.splits)

lemma count_at_cleanup:
  "unat (count_at (ipPacketCount (cleanup now ad)) ip) \<le> unat (count_at (ipPacketCount ad) ip)"
  by (simp add: cleanup_def count_at_def split: option.splits)

lemma ProcessPacket_no_dos:
  assumes b: "\<forall>ip. unat (count_at (ipPacketCount ad) ip) \<le> n" and n: "n < 500"
      and c: "config ad = DefaultConfig"
  shows "(\<forall>ip. unat (count_at (ipPacketCount (ad_ProcessPacket pkt now ad)) ip) \<le> Suc n) \<and>
         alerts_of AnomalyDoS (ad_ProcessPacket pkt now ad) = alerts_of AnomalyDoS ad"
proof -
  let ?ad1 = "if Sub now (lastCleanup ad) > CleanupInterval (config ad)
              then (cleanup now ad)\<lparr>lastCleanup := now\<rparr> else ad"
  let ?ad3 = "detectUnsecureProtocol pkt now (detectBroadcastStorm pkt now ?ad1)"
  have p: "ad_ProcessPacket pkt now ad = detectDoS pkt now ?ad3"
    by (simp add: ad_ProcessPacket_def Let_def)
  have b1: "\<forall>ip. unat (count_at (ipPacketCount ?ad1) ip) \<le> n"
    using b count_at_cleanup [of now ad] by (auto intro: order_trans)
  have b3: "\<forall>ip. unat (count_at (ipPacketCount ?ad3) ip) \<le> n"
    using b1 by (simp add: dos_part_others)
  have c3: "DoSThreshold (config ?ad3) = 500"
    using c by (simp add: frame_detectUnsecureProtocol config_detectBroadcastStorm frame_cleanup
                  DefaultConfig_def)
  have a3: "alerts_of AnomalyDoS ?ad3 = alerts_of AnomalyDoS ad"
    by (simp add: dos_part_others)
  from detectDoS_quiet [OF b3 n c3, of pkt now] show ?thesis
    unfolding p a3 by simp
qed

lemma run_no_dos:
  assumes "\<forall>ip. unat (count_at (ipPacketCount ad) ip) \<le> n" and "n + length evs \<le> 500"
      and "config ad = DefaultConfig"
  shows "alerts_of AnomalyDoS (ad_run ad evs) = alerts_of AnomalyDoS ad"
  using assms
proof (induction evs arbitrary: ad n)
  case Nil
  then show ?case by simp
next
  case (Cons e evs)
  obtain pkt now where e: "e = (pkt, now)" by (cases e)
  have n: "n < 500" using Cons.prems(2) by simp
  note st = ProcessPacket_no_dos [OF Cons.prems(1) n Cons.prems(3), of pkt now]
  have 1: "\<forall>ip. unat (count_at (ipPacketCount (ad_ProcessPacket pkt now ad)) ip) \<le> Suc n"
    using st by blast
  have 2: "Suc n + length evs \<le> 500" using Cons.prems(2) by simp
  have 3: "config (ad_ProcessPacket pkt now ad) = DefaultConfig"
    using Cons.prems(3) by (simp add: unsecure_view(3))
  from Cons.IH [OF 1 2 3] st show ?case by (simp add: e)
qed

lemma run_no_unsecure:
  assumes "\<forall>e \<in> set evs. unsecurePorts (DstPort (fst e)) = None"
  shows "alerts_of AnomalyUnsecure (ad_run ad evs) = alerts_of AnomalyUnsecure ad"
  using assms
proof (induction ad evs rule: ad_run.induct)
  case (1 ad)
  then show ?case by simp
next
  case (2 ad pkt now evs)
  have "\<not> unsecure_due ad pkt now" using "2.prems" by (simp add: unsecure_due_def)
  then have "alerts_of AnomalyUnsecure (ad_ProcessPacket pkt now ad) = alerts_of AnomalyUnsecure ad"
    using unsecure_view(4) [of pkt now ad] by auto
  then show ?case using "2.IH" "2.prems" by simp
qed

lemma no_alerts_of_any_type:
  assumes "alerts_of AnomalyBroadcastStorm ad = []" "alerts_of AnomalyUnsecure ad = []"
      and "alerts_of AnomalyDoS ad = []"
  shows "fired ad = []"
proof (cases "fired ad")
  case Nil
  then show ?thesis .
next
  case (Cons a as)
  then show ?thesis
    using assms by (cases "Type a") (simp_all add: alerts_of_def)
qed

lemma quiet_run:
  assumes "alerts_of AnomalyBroadcastStorm (ad_run (NewAnomalyDetector DefaultConfig t0) evs) = []"
      and "length evs \<le> 500"
      and "\<forall>e \<in> set evs. unsecurePorts (DstPort (fst e)) = None"
  shows "fired (ad_run (NewAnomalyDetector DefaultConfig t0) evs) = []"
proof -
  let ?ad0 = "NewAnomalyDetector DefaultConfig t0"
  have b: "\<forall>ip. unat (count_at (ipPacketCount ?ad0) ip) \<le> 0"
    by (simp add: NewAnomalyDetector_def count_at_def)
  have l: "0 + length evs \<le> 500" using assms(2) by simp
  have c: "config ?ad0 = DefaultConfig" by (simp add: new_detector_fields)
  have d: "alerts_of AnomalyDoS (ad_run ?ad0 evs) = []"
    using run_no_dos [OF b l c] by (simp add: new_detector_fields)
  have u: "alerts_of AnomalyUnsecure (ad_run ?ad0 evs) = []"
    using run_no_unsecure [OF assms(3), of ?ad0] by (simp add: new_detector_fields)
  show ?thesis by (rule no_alerts_of_any_type [OF assms(1) u d])
qed

text \<open>
  C4. The rule counts the broadcast-destined records of a run in a window that the first
  of them opens; records of any other kind may come in between and are not counted. For a
  detector in any state with the threshold 50: when a run holds 51 broadcast-destined
  records, the first is processed more than a second after the start of the detector's
  window (so that it opens a new one; the window of a new detector starts at Go's zero
  Time), and all of them are processed less than a second after the first, the run raises
  exactly one BROADCAST_STORM alert and leaves the counter at 0; no part of the run with
  at most 50 of the broadcasts raises one, so the alert comes with the 51st. Whenever
  detectBroadcastStorm raises an alert it resets the counter to 0 and restarts the window
  in the same call. A run in three consecutive parts, 51 broadcasts in all and at most 50
  in a part, the broadcasts of each part within a second of the first of them and each
  first one more than a second after the first of the part before, raises no
  BROADCAST_STORM alert; and on a new detector with the default configuration no alert at
  all, when the run has at most 500 records and none goes to a port that the unsecure
  rule flags.
\<close>

theorem broadcast_storm_alerts:
  "(BroadcastThreshold (config ad) = 50 \<and> length (broadcasts evs) = 51 \<and>
    broadcastWindow ad + Second < snd (hd (broadcasts evs)) \<and>
    within_window (snd (hd (broadcasts evs))) Second (broadcasts evs) \<longrightarrow>
      length (alerts_of AnomalyBroadcastStorm (ad_run ad evs))
        = Suc (length (alerts_of AnomalyBroadcastStorm ad)) \<and>
      broadcastCount (ad_run ad evs) = 0 \<and>
      (\<forall>k. length (broadcasts (take k evs)) \<le> 50 \<longrightarrow>
         alerts_of AnomalyBroadcastStorm (ad_run ad (take k evs))
           = alerts_of AnomalyBroadcastStorm ad)) \<and>
   (length (alerts_of AnomalyBroadcastStorm (detectBroadcastStorm pkt now st))
      \<noteq> length (alerts_of AnomalyBroadcastStorm st) \<longrightarrow>
      broadcastCount (detectBroadcastStorm pkt now st) = 0 \<and>
      broadcastWindow (detectBroadcastStorm pkt now st) = now) \<and>
   (BroadcastThreshold (config det) = 50 \<and> length (broadcasts (ga @ gb @ gc)) = 51 \<and>
    broadcasts ga \<noteq> [] \<and> broadcasts gb \<noteq> [] \<and> broadcasts gc \<noteq> [] \<and>
    length (broadcasts ga) \<le> 50 \<and> length (broadcasts gb) \<le> 50 \<and>
    length (broadcasts gc) \<le> 50 \<and>
    broadcastWindow det + Second < snd (hd (broadcasts ga)) \<and>
    within_window (snd (hd (broadcasts ga))) Second (broadcasts ga) \<and>
    within_window (snd (hd (broadcasts gb))) Second (broadcasts gb) \<and>
    within_window (snd (hd (broadcasts gc))) Second (broadcasts gc) \<and>
    snd (hd (broadcasts ga)) + Second < snd (hd (broadcasts gb)) \<and>
    snd (hd (broadcasts gb)) + Second < snd (hd (broadcasts gc)) \<longrightarrow>
      alerts_of AnomalyBroadcastStorm (ad_run det (ga @ gb @ gc))
        = alerts_of AnomalyBroadcastStorm det \<and>
      (det = NewAnomalyDetector DefaultConfig born \<and> length (ga @ gb @ gc) \<le> 500 \<and>
       (\<forall>e \<in> set (ga @ gb @ gc).
          DstPort (fst e) \<noteq> 80 \<and> DstPort (fst e) \<noteq> 21 \<and> DstPort (fst e) \<noteq> 23) \<longrightarrow>
         fired (ad_run det (ga @ gb @ gc)) = []))"
proof -
  have quiet: "fired (ad_run det (ga @ gb @ gc)) = []"
    if s: "alerts_of AnomalyBroadcastStorm (ad_run det (ga @ gb @ gc))
             = alerts_of AnomalyBroadcastStorm det"
      and n: "det = NewAnomalyDetector DefaultConfig born"
      and l: "length (ga @ gb @ gc) \<le> 500"
      and p: "\<forall>e \<in> set (ga @ gb @ gc).
                DstPort (fst e) \<noteq> 80 \<and> DstPort (fst e) \<noteq> 21 \<and> DstPort (fst e) \<noteq> 23"
  proof -
    have u: "\<forall>e \<in> set (ga @ gb @ gc). unsecurePorts (DstPort (fst e)) = None"
      using p by (simp add: unsecurePorts_def)
    have "alerts_of AnomalyBroadcastStorm
            (ad_run (NewAnomalyDetector DefaultConfig born) (ga @ gb @ gc)) = []"
      using s n by (simp add: new_detector_fields)
    from quiet_run [OF this l u] show ?thesis using n by simp
  qed
  have before: "\<forall>k. length (broadcasts (take k evs)) \<le> 50 \<longrightarrow>
         alerts_of AnomalyBroadcastStorm (ad_run ad (take k evs))
           = alerts_of AnomalyBroadcastStorm ad"
    if "BroadcastThreshold (config ad) = 50"
       "broadcastWindow ad + Second < snd (hd (broadcasts evs))"
       "within_window (snd (hd (broadcasts evs))) Second (broadcasts evs)"
    using before_threshold [OF that] by blast
  show ?thesis
    using storm_burst [of ad evs] before reset_on_alert [of pkt now st]
      storm_spread [of det ga gb gc] quiet
    by blast
qed

theorem broadcast_storm_alerts_witness:
  "(BroadcastThreshold (config (ad_run (NewAnomalyDetector DefaultConfig 0) earlier_broadcasts)) = 50 \<and>
    broadcastCount (ad_run (NewAnomalyDetector DefaultConfig 0) earlier_broadcasts) = 7 \<and>
    length (broadcasts (mixed 3000000000 51)) = 51 \<and>
    length (mixed 3000000000 51) = 102 \<and>
    broadcastWindow (ad_run (NewAnomalyDetector DefaultConfig 0) earlier_broadcasts) + Second
      < snd (hd (broadcasts (mixed 3000000000 51))) \<and>
    within_window (snd (hd (broadcasts (mixed 3000000000 51)))) Second
      (broadcasts (mixed 3000000000 51)) \<and>
    length (alerts_of AnomalyBroadcastStorm
              (ad_run (ad_run (NewAnomalyDetector DefaultConfig 0) earlier_broadcasts)
                 (mixed 3000000000 51)))
      = Suc (length (alerts_of AnomalyBroadcastStorm
                       (ad_run (NewAnomalyDetector DefaultConfig 0) earlier_broadcasts))) \<and>
    broadcastCount (ad_run (ad_run (NewAnomalyDetector DefaultConfig 0) earlier_broadcasts)
                      (mixed 3000000000 51)) = 0 \<and>
    length (broadcasts (take 100 (mixed 3000000000 51))) = 50 \<and>
    alerts_of AnomalyBroadcastStorm
      (ad_run (ad_run (NewAnomalyDetector DefaultConfig 0) earlier_broadcasts)
         (take 100 (mixed 3000000000 51)))
      = alerts_of AnomalyBroadcastStorm
          (ad_run (NewAnomalyDetector DefaultConfig 0) earlier_broadcasts)) \<and>
   (length (alerts_of AnomalyBroadcastStorm
              (detectBroadcastStorm broadcast_packet 0
                 ((NewAnomalyDetector DefaultConfig 0)\<lparr>broadcastCount := 50\<rparr>)))
      \<noteq> length (alerts_of AnomalyBroadcastStorm
                  ((NewAnomalyDetector DefaultConfig 0)\<lparr>broadcastCount := 50\<rparr>)) \<and>
    broadcastCount (detectBroadcastStorm broadcast_packet 0
                      ((NewAnomalyDetector DefaultConfig 0)\<lparr>broadcastCount := 50\<rparr>)) = 0) \<and>
   (length (broadcasts (mixed 2000000000 20 @ mixed 4000000000 20 @ mixed 6000000000 11)) = 51 \<and>
    length (mixed 2000000000 20 @ mixed 4000000000 20 @ mixed 6000000000 11) = 102 \<and>
    snd (hd (broadcasts (mixed 2000000000 20))) + Second
      < snd (hd (broadcasts (mixed 4000000000 20))) \<and>
    snd (hd (broadcasts (mixed 4000000000 20))) + Second
      < snd (hd (broadcasts (mixed 6000000000 11))) \<and>
    alerts_of AnomalyBroadcastStorm
      (ad_run (NewAnomalyDetector DefaultConfig 0)
         (mixed 2000000000 20 @ mixed 4000000000 20 @ mixed 6000000000 11)) = [] \<and>
    fired (ad_run (NewAnomalyDetector DefaultConfig 0)
             (mixed 2000000000 20 @ mixed 4000000000 20 @ mixed 6000000000 11)) = [])"
proof -
  let ?new = "NewAnomalyDetector DefaultConfig 0"
  let ?busy = "ad_run ?new earlier_broadcasts"
  let ?st = "?new\<lparr>broadcastCount := 50\<rparr>"
  let ?e1 = "mixed 2000000000 20" and ?e2 = "mixed 4000000000 20" and ?e3 = "mixed 6000000000 11"
  have b0: "broadcastWindow ?busy = 1500000000" "broadcastCount ?busy = 7"
    by code_simp+
  have h1: "BroadcastThreshold (config ?busy) = 50 \<and>
            length (broadcasts (mixed 3000000000 51)) = 51 \<and>
            broadcastWindow ?busy + Second < snd (hd (broadcasts (mixed 3000000000 51))) \<and>
            within_window (snd (hd (broadcasts (mixed 3000000000 51)))) Second
              (broadcasts (mixed 3000000000 51))"
    by (simp add: b0 broadcasts_mixed length_burst hd_burst within_window_burst
          new_detector_fields)
       (simp add: Second_def DefaultConfig_def)
  have hl: "length (mixed 3000000000 51) = 102"
           "length (?e1 @ ?e2 @ ?e3) = 102"
    by (simp_all add: length_mixed)
  have hk: "length (broadcasts (take 100 (mixed 3000000000 51))) = 50"
    by code_simp
  have hk': "length (broadcasts (take 100 (mixed 3000000000 51))) \<le> 50"
    using hk by simp
  have h2: "length (alerts_of AnomalyBroadcastStorm (detectBroadcastStorm broadcast_packet 0 ?st))
              \<noteq> length (alerts_of AnomalyBroadcastStorm ?st)"
    by (simp add: detectBroadcastStorm_def Let_def broadcast_packet_def NewAnomalyDetector_def
          DefaultConfig_def Sub_def Second_def maxDuration_def minDuration_def zeroTime_def
          alerts_of_def addAlert_def)
  have h3: "BroadcastThreshold (config ?new) = 50 \<and>
    length (broadcasts (?e1 @ ?e2 @ ?e3)) = 51 \<and>
    broadcasts ?e1 \<noteq> [] \<and> broadcasts ?e2 \<noteq> [] \<and> broadcasts ?e3 \<noteq> [] \<and>
    length (broadcasts ?e1) \<le> 50 \<and> length (broadcasts ?e2) \<le> 50 \<and>
    length (broadcasts ?e3) \<le> 50 \<and>
    broadcastWindow ?new + Second < snd (hd (broadcasts ?e1)) \<and>
    within_window (snd (hd (broadcasts ?e1))) Second (broadcasts ?e1) \<and>
    within_window (snd (hd (broadcasts ?e2))) Second (broadcasts ?e2) \<and>
    within_window (snd (hd (broadcasts ?e3))) Second (broadcasts ?e3) \<and>
    snd (hd (broadcasts ?e1)) + Second < snd (hd (broadcasts ?e2)) \<and>
    snd (hd (broadcasts ?e2)) + Second < snd (hd (broadcasts ?e3))"
    by (simp add: broadcasts_mixed length_burst hd_burst within_window_burst burst_nonempty
          new_detector_fields)
       (simp add: Second_def DefaultConfig_def)
  have h4: "length (?e1 @ ?e2 @ ?e3) \<le> 500" by (simp add: length_mixed)
  have h5: "\<forall>e \<in> set (?e1 @ ?e2 @ ?e3).
              DstPort (fst e) \<noteq> 80 \<and> DstPort (fst e) \<noteq> 21 \<and> DstPort (fst e) \<noteq> 23"
    by (auto dest: ports_mixed)
  have h6: "alerts_of AnomalyBroadcastStorm ?new = []" by (simp add: new_detector_fields)
  from broadcast_storm_alerts
         [where ad = ?busy and evs = "mixed 3000000000 51" and pkt = broadcast_packet
            and now = 0 and st = ?st and det = ?new and ga = ?e1 and gb = ?e2
            and gc = ?e3 and born = 0]
       h1 hk' h2 h3 h4 h5
  have c: "(length (alerts_of AnomalyBroadcastStorm (ad_run ?busy (mixed 3000000000 51)))
              = Suc (length (alerts_of AnomalyBroadcastStorm ?busy)) \<and>
            broadcastCount (ad_run ?busy (mixed 3000000000 51)) = 0 \<and>
            alerts_of AnomalyBroadcastStorm (ad_run ?busy (take 100 (mixed 3000000000 51)))
              = alerts_of AnomalyBroadcastStorm ?busy) \<and>
           broadcastCount (detectBroadcastStorm broadcast_packet 0 ?st) = 0 \<and>
           alerts_of AnomalyBroadcastStorm (ad_run ?new (?e1 @ ?e2 @ ?e3))
             = alerts_of AnomalyBroadcastStorm ?new \<and>
           fired (ad_run ?new (?e1 @ ?e2 @ ?e3)) = []"
    by blast
  show ?thesis
    using c h1 hl hk h2 h3 b0(2) by (simp only: h6) simp
qed

text \<open>
  Without the condition on the window a burst can pass unnoticed. A new detector
  processes one broadcast at 2.000 s and then 51 broadcasts from 2.980 s to 3.030 s, one
  every millisecond. The window opened at 2.000 s takes the first 22 of the 52 records;
  the record at 3.001 s finds it expired and opens another, which takes the other 30. No
  BROADCAST_STORM alert is raised.
\<close>

theorem storm_missed_across_windows:
  "length (burst 2980000000 51) = 51 \<and>
   broadcasts (burst 2980000000 51) = burst 2980000000 51 \<and>
   within_window 2980000000 Second (burst 2980000000 51) \<and>
   alerts_of AnomalyBroadcastStorm
     (ad_run (NewAnomalyDetector DefaultConfig 0)
        ((broadcast_packet, 2000000000) # burst 2980000000 51)) = []"
  by code_simp

section \<open>Properties of the spoofing engine\<close>

lemma sendARP_with_handle:
  "has_handle e \<Longrightarrow>
   sendARP env e srcMAC srcIP dstMAC dstIP w =
     Inr (env (calls w) = Sent,
          \<lparr>trace = trace w @ written (env (calls w)) (arp_reply srcMAC srcIP dstMAC dstIP),
           calls = calls w + 1\<rparr>)"
  by (cases w) (simp add: sendARP_def Let_def written_def act_def)

lemma cleanup_loop_done: "cleanup_loop env e 3 w = Inr w"
  by (simp add: cleanup_loop.simps)

lemma cleanup_loop_round:
  "has_handle e \<Longrightarrow> i < 3 \<Longrightarrow>
   cleanup_loop env e i w =
     cleanup_loop env e (i + 1)
       \<lparr>trace = trace w @ restoration_round env e (calls w), calls = calls w + 2\<rparr>"
  by (subst cleanup_loop.simps)
     (simp add: sendARP_with_handle restoration_round_def act_def)

lemma engine_cleanup_rounds:
  assumes "has_handle e"
  shows "engine_cleanup env e w =
     Inr \<lparr>trace = trace w @ [LogLine ''Restoring network (Unspoofing)...''] @
                  restoration_round env e (calls w) @ restoration_round env e (calls w + 2) @
                  restoration_round env e (calls w + 4),
          calls = calls w + 6\<rparr>"
proof -
  have 0: "(0::nat) < 3" and 1: "(1::nat) < 3" and 2: "(2::nat) < 3" by simp_all
  have s: "(0::nat) + 1 = 1" "(1::nat) + 1 = 2" "(2::nat) + 1 = 3" by simp_all
  show ?thesis
    unfolding engine_cleanup_def
    by (simp only: cleanup_loop_round [OF assms 0] cleanup_loop_round [OF assms 1]
          cleanup_loop_round [OF assms 2] cleanup_loop_done s)
       (simp add: act_def eval_nat_numeral)
qed

lemma frames_written_simps [simp]:
  "frames_written [] = 0"
  "frames_written (WritePacketData f # as) = Suc (frames_written as)"
  "frames_written (Sleep d # as) = frames_written as"
  "frames_written (LogLine l # as) = frames_written as"
  "frames_written (CloseStopChan # as) = frames_written as"
  "frames_written (CloseHandle # as) = frames_written as"
  "frames_written (as @ bs) = frames_written as + frames_written bs"
  by (simp_all add: frames_written_def)

lemma frames_written_round:
  "env n \<noteq> SerializeFails \<Longrightarrow> env (n + 1) \<noteq> SerializeFails \<Longrightarrow>
   frames_written (restoration_round env e n) = 2"
  by (simp add: restoration_round_def written_def)

lemma restoration_round_flags [simp]:
  "restoration_round env (e\<lparr>stopChan_closed := c, isRunning := r\<rparr>) n = restoration_round env e n"
  by (simp add: restoration_round_def)

text \<open>
  C8, as the code has it. Stop on an engine that is running (with its stop channel open
  and a capture handle) closes the stop channel, pauses 100ms, and then makes exactly
  six calls of sendARP in three rounds, each round one call per direction followed by a
  100ms pause, whatever the calls return; each call hands its frame to the capture
  handle unless the frame cannot be serialized, so six frames when serialization never
  fails. The handle is closed last, after the third round. Stop on an engine that is
  not running returns at once and does nothing.
\<close>

theorem stop_restores_when_running:
  "(isRunning e \<and> \<not> stopChan_closed e \<and> has_handle e \<longrightarrow>
      Stop env e w =
        Inr (e\<lparr>stopChan_closed := True, isRunning := False\<rparr>,
             \<lparr>trace = trace w @
                    [CloseStopChan, Sleep (100 * Millisecond),
                     LogLine ''Restoring network (Unspoofing)...''] @
                    restoration_round env e (calls w) @ restoration_round env e (calls w + 2) @
                    restoration_round env e (calls w + 4) @ [CloseHandle],
              calls = calls w + 6\<rparr>) \<and>
      ((\<forall>n. env n \<noteq> SerializeFails) \<longrightarrow>
         frames_written
           (restoration_round env e (calls w) @ restoration_round env e (calls w + 2) @
            restoration_round env e (calls w + 4)) = 6)) \<and>
   (\<not> isRunning e \<longrightarrow> Stop env e w = Inr (e, w))"
  by (simp add: Stop_def Let_def engine_cleanup_rounds act_def frames_written_round)

theorem stop_restores_when_running_witness:
  "(isRunning running_engine \<and> \<not> stopChan_closed running_engine \<and> has_handle running_engine \<and>
    Stop (\<lambda>n. if n = 1 then WriteFails else Sent) running_engine quiet_wire =
      Inr (running_engine\<lparr>stopChan_closed := True, isRunning := False\<rparr>,
           \<lparr>trace = trace quiet_wire @
                  [CloseStopChan, Sleep (100 * Millisecond),
                   LogLine ''Restoring network (Unspoofing)...''] @
                  restoration_round (\<lambda>n. if n = 1 then WriteFails else Sent) running_engine
                    (calls quiet_wire) @
                  restoration_round (\<lambda>n. if n = 1 then WriteFails else Sent) running_engine
                    (calls quiet_wire + 2) @
                  restoration_round (\<lambda>n. if n = 1 then WriteFails else Sent) running_engine
                    (calls quiet_wire + 4) @ [CloseHandle],
            calls = calls quiet_wire + 6\<rparr>) \<and>
    (\<forall>n. (if n = (1::nat) then WriteFails else Sent) \<noteq> SerializeFails) \<and>
    frames_written
      (restoration_round (\<lambda>n. if n = 1 then WriteFails else Sent) running_engine
         (calls quiet_wire) @
       restoration_round (\<lambda>n. if n = 1 then WriteFails else Sent) running_engine
         (calls quiet_wire + 2) @
       restoration_round (\<lambda>n. if n = 1 then WriteFails else Sent) running_engine
         (calls quiet_wire + 4)) = 6) \<and>
   (\<not> isRunning idle_engine \<and>
    Stop (\<lambda>n. if n = 1 then WriteFails else Sent) idle_engine quiet_wire
      = Inr (idle_engine, quiet_wire))"
proof -
  have r: "isRunning running_engine \<and> \<not> stopChan_closed running_engine \<and> has_handle running_engine"
    by (simp add: running_engine_def)
  have i: "\<not> isRunning idle_engine" by (simp add: idle_engine_def)
  have n: "\<forall>n. (if n = (1::nat) then WriteFails else Sent) \<noteq> SerializeFails" by simp
  from stop_restores_when_running
         [of running_engine "\<lambda>n. if n = 1 then WriteFails else Sent" quiet_wire]
       stop_restores_when_running
         [of idle_engine "\<lambda>n. if n = 1 then WriteFails else Sent" quiet_wire]
       r i n
  show ?thesis by blast
qed

text \<open>
  C8 as stated fails on an engine that is not running: Stop returns through its guard
  \<^verbatim>\<open>if !e.isRunning\<close> and no frame is sent.
\<close>

theorem stop_idle_sends_nothing:
  "Stop (\<lambda>n. Sent) idle_engine quiet_wire = Inr (idle_engine, quiet_wire) \<and>
   trace quiet_wire = [] \<and> calls quiet_wire \<noteq> 6"
  by (simp add: Stop_def idle_engine_def quiet_wire_def)

section \<open>Properties of the resolver\<close>

lemma wait_reply_found:
  assumes "\<forall>p \<in> set pre. passes targetIP p" and "since_start \<le> 3 * Second"
      and "is_reply_from targetIP reply"
  shows "wait_reply targetIP (pre @ (since_start, GotPacket (Some reply)) # post)
           = Some (Inr (SourceHwAddress reply))"
  using assms
  by (induction pre) (auto simp: passes_def split: received.splits option.splits)

lemma wait_reply_timeout:
  assumes "\<forall>p \<in> set pre. passes targetIP p" and "since_start > 3 * Second"
  shows "wait_reply targetIP (pre @ (since_start, r) # post) = Some (Inl TimeoutWaitingForReply)"
  using assms
  by (induction pre) (auto simp: passes_def split: received.splits option.splits)

lemma GetMAC_after_send:
  assumes "setup_ok env ipStr interfaceName targetIP iface srcIP" and "WritePacketData_ok env"
  shows "GetMAC env ipStr interfaceName =
     (case wait_reply targetIP (polls env) of
        None \<Rightarrow> None
      | Some result \<Rightarrow>
          Some (result, [WritePacketData (arp_request (HardwareAddr iface) srcIP targetIP), CloseHandle]))"
  using assms by (auto simp: setup_ok_def GetMAC_def Let_def)

lemma GetMAC_frames:
  assumes "GetMAC env ipStr interfaceName = Some (result, tr)"
  shows "frames_written tr =
           (if \<exists>targetIP iface srcIP. setup_ok env ipStr interfaceName targetIP iface srcIP
            then 1 else 0)"
  using assms
  by (auto simp: GetMAC_def setup_ok_def Let_def split: option.splits if_splits)

lemma sample_setup_ok:
  "setup_ok (sample_resolver_env ps) ''192.168.1.20'' ''eth0'' (v4InV6Prefix @ [192, 168, 1, 20])
     sample_interface [192, 168, 1, 99] \<and>
   WritePacketData_ok (sample_resolver_env ps) \<and> polls (sample_resolver_env ps) = ps"
  by (simp add: setup_ok_def sample_resolver_env_def sample_interface_def To4_def)

text \<open>
  C6, as the code has it. When the setup succeeds and the request is written, GetMAC
  returns the sender hardware address of the first captured ARP packet that is a Reply
  whose sender protocol address equals the requested IP, if every turn of the wait loop
  up to the one that receives it starts within 3 seconds of the send; and it fails with
  the timeout error as soon as a turn starts later than 3 seconds after the send with no
  such reply received before. A call hands at most one frame, the ARP request, to the
  capture handle: exactly one when the setup succeeds, none when it fails.
\<close>

theorem getmac_resolves_or_times_out:
  "(setup_ok env ipStr interfaceName targetIP iface srcIP \<and> WritePacketData_ok env \<and>
    polls env = pre @ (since_start, GotPacket (Some reply)) # post \<and>
    (\<forall>p \<in> set pre. passes targetIP p) \<and> since_start \<le> 3 * Second \<and>
    is_reply_from targetIP reply \<longrightarrow>
      GetMAC env ipStr interfaceName =
        Some (Inr (SourceHwAddress reply),
              [WritePacketData (arp_request (HardwareAddr iface) srcIP targetIP), CloseHandle])) \<and>
   (setup_ok env ipStr interfaceName targetIP iface srcIP \<and> WritePacketData_ok env \<and>
    polls env = pre @ (since_start, r) # post \<and>
    (\<forall>p \<in> set pre. passes targetIP p) \<and> 3 * Second < since_start \<longrightarrow>
      GetMAC env ipStr interfaceName =
        Some (Inl TimeoutWaitingForReply,
              [WritePacketData (arp_request (HardwareAddr iface) srcIP targetIP), CloseHandle])) \<and>
   (GetMAC env ipStr interfaceName = Some (result, tr) \<longrightarrow>
      frames_written tr =
        (if \<exists>targetIP iface srcIP. setup_ok env ipStr interfaceName targetIP iface srcIP
         then 1 else 0))"
proof (intro conjI impI)
  assume a: "setup_ok env ipStr interfaceName targetIP iface srcIP \<and> WritePacketData_ok env \<and>
    polls env = pre @ (since_start, GotPacket (Some reply)) # post \<and>
    (\<forall>p \<in> set pre. passes targetIP p) \<and> since_start \<le> 3 * Second \<and>
    is_reply_from targetIP reply"
  then have "wait_reply targetIP (polls env) = Some (Inr (SourceHwAddress reply))"
    using wait_reply_found [of pre targetIP since_start reply post] by simp
  then show "GetMAC env ipStr interfaceName =
        Some (Inr (SourceHwAddress reply),
              [WritePacketData (arp_request (HardwareAddr iface) srcIP targetIP), CloseHandle])"
    using a GetMAC_after_send [of env ipStr interfaceName targetIP iface srcIP] by simp
next
  assume a: "setup_ok env ipStr interfaceName targetIP iface srcIP \<and> WritePacketData_ok env \<and>
    polls env = pre @ (since_start, r) # post \<and>
    (\<forall>p \<in> set pre. passes targetIP p) \<and> 3 * Second < since_start"
  then have "wait_reply targetIP (polls env) = Some (Inl TimeoutWaitingForReply)"
    using wait_reply_timeout [of pre targetIP since_start r post] by simp
  then show "GetMAC env ipStr interfaceName =
        Some (Inl TimeoutWaitingForReply,
              [WritePacketData (arp_request (HardwareAddr iface) srcIP targetIP), CloseHandle])"
    using a GetMAC_after_send [of env ipStr interfaceName targetIP iface srcIP] by simp
next
  assume "GetMAC env ipStr interfaceName = Some (result, tr)"
  then show "frames_written tr =
        (if \<exists>targetIP iface srcIP. setup_ok env ipStr interfaceName targetIP iface srcIP
         then 1 else 0)"
    by (rule GetMAC_frames)
qed

theorem getmac_resolves_or_times_out_witness:
  "(setup_ok (sample_resolver_env answered_polls) ''192.168.1.20'' ''eth0''
      (v4InV6Prefix @ [192, 168, 1, 20]) sample_interface [192, 168, 1, 99] \<and>
    passes (v4InV6Prefix @ [192, 168, 1, 20]) (50 * Millisecond, After100ms) \<and>
    passes (v4InV6Prefix @ [192, 168, 1, 20]) (150 * Millisecond, GotPacket (Some reply_from_other)) \<and>
    160 * Millisecond \<le> 3 * Second \<and>
    is_reply_from (v4InV6Prefix @ [192, 168, 1, 20]) reply_from_target \<and>
    GetMAC (sample_resolver_env answered_polls) ''192.168.1.20'' ''eth0'' =
      Some (Inr (SourceHwAddress reply_from_target),
            [WritePacketData
               (arp_request (HardwareAddr sample_interface) [192, 168, 1, 99]
                  (v4InV6Prefix @ [192, 168, 1, 20])),
             CloseHandle]) \<and>
    frames_written
      [WritePacketData
         (arp_request (HardwareAddr sample_interface) [192, 168, 1, 99]
            (v4InV6Prefix @ [192, 168, 1, 20])),
       CloseHandle] = 1) \<and>
   (passes (v4InV6Prefix @ [192, 168, 1, 20]) (2990 * Millisecond, After100ms) \<and>
    3 * Second < 3050 * Millisecond \<and>
    GetMAC (sample_resolver_env late_polls) ''192.168.1.20'' ''eth0'' =
      Some (Inl TimeoutWaitingForReply,
            [WritePacketData
               (arp_request (HardwareAddr sample_interface) [192, 168, 1, 99]
                  (v4InV6Prefix @ [192, 168, 1, 20])),
             CloseHandle]))"
proof -
  let ?T = "v4InV6Prefix @ [192, 168, 1, 20]"
  have p1: "passes ?T (50 * Millisecond, After100ms)"
    by (simp add: passes_def Millisecond_def Second_def)
  have p2: "passes ?T (150 * Millisecond, GotPacket (Some reply_from_other))"
    by (simp add: passes_def Millisecond_def Second_def is_reply_from_def reply_from_other_def
          arp_reply_def IP_Equal_def To4_def v4InV6Prefix_def)
  have p3: "passes ?T (2990 * Millisecond, After100ms)"
    by (simp add: passes_def Millisecond_def Second_def)
  have r: "is_reply_from ?T reply_from_target"
    by (simp add: is_reply_from_def reply_from_target_def arp_reply_def IP_Equal_def To4_def
          v4InV6Prefix_def)
  have t: "160 * Millisecond \<le> 3 * Second" "3 * Second < 3050 * Millisecond"
    by (simp_all add: Millisecond_def Second_def)
  have b1: "\<forall>p \<in> set [(50 * Millisecond, After100ms),
                         (150 * Millisecond, GotPacket (Some reply_from_other))]. passes ?T p"
    using p1 p2 by simp
  have b2: "\<forall>p \<in> set [(50 * Millisecond, After100ms), (2990 * Millisecond, After100ms)]. passes ?T p"
    using p1 p3 by simp
  have e: "\<exists>targetIP iface srcIP.
             setup_ok (sample_resolver_env answered_polls) ''192.168.1.20'' ''eth0'' targetIP iface srcIP"
    using sample_setup_ok by blast
  note s1 = sample_setup_ok [of answered_polls]
  note s2 = sample_setup_ok [of late_polls]
  from getmac_resolves_or_times_out
         [of "sample_resolver_env answered_polls" "''192.168.1.20''" "''eth0''" ?T sample_interface
             "[192, 168, 1, 99]"
             "[(50 * Millisecond, After100ms), (150 * Millisecond, GotPacket (Some reply_from_other))]"
             "160 * Millisecond" reply_from_target
             "[(170 * Millisecond, GotPacket (Some reply_from_other))]" _
             "Inr (SourceHwAddress reply_from_target)"
             "[WritePacketData (arp_request (HardwareAddr sample_interface) [192, 168, 1, 99] ?T),
               CloseHandle]"]
  have g1: "GetMAC (sample_resolver_env answered_polls) ''192.168.1.20'' ''eth0'' =
      Some (Inr (SourceHwAddress reply_from_target),
            [WritePacketData (arp_request (HardwareAddr sample_interface) [192, 168, 1, 99] ?T),
             CloseHandle])"
    and f1: "frames_written
      [WritePacketData (arp_request (HardwareAddr sample_interface) [192, 168, 1, 99] ?T),
       CloseHandle] = 1"
    using s1 b1 t r e by (simp_all add: answered_polls_def)
  from getmac_resolves_or_times_out
         [of "sample_resolver_env late_polls" "''192.168.1.20''" "''eth0''" ?T sample_interface
             "[192, 168, 1, 99]"
             "[(50 * Millisecond, After100ms), (2990 * Millisecond, After100ms)]"
             "3050 * Millisecond" _ "[]" "GotPacket (Some reply_from_target)"]
  have g2: "GetMAC (sample_resolver_env late_polls) ''192.168.1.20'' ''eth0'' =
      Some (Inl TimeoutWaitingForReply,
            [WritePacketData (arp_request (HardwareAddr sample_interface) [192, 168, 1, 99] ?T),
             CloseHandle])"
    using s2 b2 t by (simp add: late_polls_def)
  show ?thesis using s1 p1 p2 p3 r t g1 f1 g2 by simp
qed

text \<open>
  C6 as stated fails on a call whose setup fails: with an invalid IP string GetMAC
  returns an error before any frame is sent.
\<close>

theorem getmac_invalid_ip_sends_nothing:
  "GetMAC (sample_resolver_env []) ''not-an-ip'' ''eth0'' = Some (Inl InvalidIPAddress, []) \<and>
   frames_written [] = 0"
  by (simp add: GetMAC_def sample_resolver_env_def)

section \<open>Properties of the scanner\<close>

lemma cancel_at_tick:
  "probe_loop c m iface l b cur f n sent pre = None \<Longrightarrow>
   \<exists>sent'. probe_loop c m iface l b cur f n sent (pre @ CtxDone # post) = Some (Cancelled sent')"
proof (induction pre arbitrary: cur f n sent)
  case Nil
  then show ?case by (auto split: if_splits)
next
  case (Cons ev pre)
  then show ?case
    by (cases ev) (auto split: if_splits)
qed

lemma Scan_ready:
  assumes "scan_ready env interfaceName iface localIP netIP netmask"
  shows "Scan env interfaceName cfg =
     (case scan_probes env cfg iface localIP netIP netmask (ticks env) of
        None \<Rightarrow> None
      | Some (Cancelled sent) \<Rightarrow> Some (Inl ContextError, sent @ [CloseHandle])
      | Some (Probed scanned sent) \<Rightarrow>
          Some (Inr (sort_key host_IP (discoveredHosts env)), sent @ [CloseHandle]))"
  using assms
  by (auto simp: scan_ready_def Scan_def scan_probes_def Let_def
           split: option.splits probe_result.splits idle_select.splits)

lemma lan_ready:
  "scan_ready (lan_env evs i) ''eth0'' lan_interface [192, 168, 1, 98] [192, 168, 1, 98]
     [255, 255, 255, 252]"
  by (simp add: scan_ready_def lan_env_def lan_interface_def To4_def)

text \<open>
  C7, as the code has it. Both wait points of Scan observe the cancellation signal. When
  it is observed at a probe-rate tick, Scan returns at once with the cancellation error
  and no hosts, whatever was sent or collected before. When the probe loop has finished,
  Scan returns the hosts collected so far, sorted by IP and without an error, whether
  the final wait ends by cancellation or by its timer.
\<close>

theorem scan_cancellation:
  "(scan_ready env interfaceName iface localIP netIP netmask \<and>
    ticks env = pre @ CtxDone # post \<and>
    scan_probes env cfg iface localIP netIP netmask pre = None \<longrightarrow>
      (\<exists>sent. Scan env interfaceName cfg = Some (Inl ContextError, sent @ [CloseHandle]))) \<and>
   (scan_ready env interfaceName iface localIP netIP netmask \<and>
    scan_probes env cfg iface localIP netIP netmask (ticks env) = Some (Probed scanned sent) \<longrightarrow>
      Scan env interfaceName cfg =
        Some (Inr (sort_key host_IP (discoveredHosts env)), sent @ [CloseHandle]))"
proof (intro conjI impI)
  assume a: "scan_ready env interfaceName iface localIP netIP netmask \<and>
    ticks env = pre @ CtxDone # post \<and>
    scan_probes env cfg iface localIP netIP netmask pre = None"
  then obtain sent' where
    "scan_probes env cfg iface localIP netIP netmask (ticks env) = Some (Cancelled sent')"
    unfolding scan_probes_def using cancel_at_tick by metis
  moreover have "scan_ready env interfaceName iface localIP netIP netmask" using a by simp
  ultimately show "\<exists>sent. Scan env interfaceName cfg = Some (Inl ContextError, sent @ [CloseHandle])"
    by (simp add: Scan_ready [of env interfaceName iface localIP netIP netmask cfg])
next
  assume "scan_ready env interfaceName iface localIP netIP netmask \<and>
    scan_probes env cfg iface localIP netIP netmask (ticks env) = Some (Probed scanned sent)"
  then show "Scan env interfaceName cfg =
        Some (Inr (sort_key host_IP (discoveredHosts env)), sent @ [CloseHandle])"
    by (simp add: Scan_ready [of env interfaceName iface localIP netIP netmask cfg])
qed

theorem scan_cancellation_witness:
  "(scan_ready (lan_env [TickerFired Sent, TickerFired Sent, CtxDone] WaitTimerFired) ''eth0''
      lan_interface [192, 168, 1, 98] [192, 168, 1, 98] [255, 255, 255, 252] \<and>
    ticks (lan_env [TickerFired Sent, TickerFired Sent, CtxDone] WaitTimerFired)
      = [TickerFired Sent, TickerFired Sent] @ CtxDone # [] \<and>
    scan_probes (lan_env [TickerFired Sent, TickerFired Sent, CtxDone] WaitTimerFired) None
      lan_interface [192, 168, 1, 98] [192, 168, 1, 98] [255, 255, 255, 252]
      [TickerFired Sent, TickerFired Sent] = None \<and>
    (\<exists>sent. Scan (lan_env [TickerFired Sent, TickerFired Sent, CtxDone] WaitTimerFired) ''eth0'' None
              = Some (Inl ContextError, sent @ [CloseHandle]))) \<and>
   (scan_ready (lan_env [TickerFired Sent, TickerFired Sent, TickerFired Sent, TickerFired Sent]
                  IdleCtxDone) ''eth0''
      lan_interface [192, 168, 1, 98] [192, 168, 1, 98] [255, 255, 255, 252] \<and>
    idle (lan_env [TickerFired Sent, TickerFired Sent, TickerFired Sent, TickerFired Sent]
            IdleCtxDone) = IdleCtxDone \<and>
    Scan (lan_env [TickerFired Sent, TickerFired Sent, TickerFired Sent, TickerFired Sent]
            IdleCtxDone) ''eth0'' None
      = Some (Inr [found_host],
              [WritePacketData
                 (arp_request [2, 0, 0, 0, 0, 99] [192, 168, 1, 98] [192, 168, 1, 97])] @
              [CloseHandle]))"
proof -
  let ?e1 = "lan_env [TickerFired Sent, TickerFired Sent, CtxDone] WaitTimerFired"
  let ?e2 = "lan_env [TickerFired Sent, TickerFired Sent, TickerFired Sent, TickerFired Sent] IdleCtxDone"
  have t1: "ticks ?e1 = [TickerFired Sent, TickerFired Sent] @ CtxDone # []"
    by (simp add: lan_env_def)
  have p1: "scan_probes ?e1 None lan_interface [192, 168, 1, 98] [192, 168, 1, 98]
              [255, 255, 255, 252] [TickerFired Sent, TickerFired Sent] = None"
    by code_simp
  have p2: "scan_probes ?e2 None lan_interface [192, 168, 1, 98] [192, 168, 1, 98]
              [255, 255, 255, 252] (ticks ?e2)
            = Some (Probed 1 [WritePacketData
                                (arp_request [2, 0, 0, 0, 0, 99] [192, 168, 1, 98] [192, 168, 1, 97])])"
    by code_simp
  have i2: "idle ?e2 = IdleCtxDone" by (simp add: lan_env_def)
  have d2: "sort_key host_IP (discoveredHosts ?e2) = [found_host]" by (simp add: lan_env_def)
  from scan_cancellation
         [of ?e1 "''eth0''" lan_interface "[192, 168, 1, 98]" "[192, 168, 1, 98]"
             "[255, 255, 255, 252]" "[TickerFired Sent, TickerFired Sent]" "[]" None]
       scan_cancellation
         [of ?e2 "''eth0''" lan_interface "[192, 168, 1, 98]" "[192, 168, 1, 98]"
             "[255, 255, 255, 252]" _ _ None 1
             "[WritePacketData (arp_request [2, 0, 0, 0, 0, 99] [192, 168, 1, 98] [192, 168, 1, 97])]"]
       lan_ready t1 p1 p2 i2 d2
  show ?thesis by simp
qed

text \<open>
  C7 as stated fails when the cancellation is observed at a tick after a probe was
  sent: the error is propagated and the host that has answered is not returned.
\<close>

theorem scan_cancelled_after_probe:
  "Scan (lan_env [TickerFired Sent, TickerFired Sent, CtxDone] WaitTimerFired) ''eth0'' None
     = Some (Inl ContextError,
             [WritePacketData (arp_request [2, 0, 0, 0, 0, 99] [192, 168, 1, 98] [192, 168, 1, 97]),
              CloseHandle]) \<and>
   discoveredHosts (lan_env [TickerFired Sent, TickerFired Sent, CtxDone] WaitTimerFired)
     = [found_host]"
  by code_simp

end
